(* ===== verification/Prelude.thy ===== *)
theory Prelude
  imports Main "HOL-Library.Word" "HOL-Library.List_Lexorder" "HOL-Library.Char_ord"
    "HOL-Library.Product_Lexorder" "HOL-Library.AList"
begin

text \<open>
  Shared vocabulary of the development: the collections of rewrite rules, the decimal notation in
  which job identifiers, counters and deadlines are written into Redis values, and the functions of
  Go's \<^verbatim>\<open>strings\<close> package that the crawler calls. Strings are byte strings (char lists), as Go's
  strings are.
\<close>

named_theorems store_simps
  \<comment> \<open>what one Redis command replies and changes\<close>

named_theorems script_defs
  \<comment> \<open>the definitions of the Lua scripts\<close>

lemma snd_case_pair [simp]: "snd (case p of (a, b) \<Rightarrow> (g a b, b)) = snd p"
  by (cases p) simp

lemma fst_case_pair [simp]: "fst (case p of (a, b) \<Rightarrow> (g a, h a b)) = g (fst p)"
  by (cases p) simp

subsection \<open>Decimal notation\<close>

definition digit_char :: "nat \<Rightarrow> char" where
  "digit_char d = char_of (48 + d)"

definition char_digit :: "char \<Rightarrow> nat option" where
  "char_digit c = (let n = of_char c :: nat in if 48 \<le> n \<and> n \<le> 57 then Some (n - 48) else None)"

fun dec_nat :: "nat \<Rightarrow> string" where
  "dec_nat n = (if n < 10 then [digit_char n] else dec_nat (n div 10) @ [digit_char (n mod 10)])"

declare dec_nat.simps [simp del]

definition dec :: "int \<Rightarrow> string" where
  "dec i = (if i < 0 then CHR ''-'' # dec_nat (nat (- i)) else dec_nat (nat i))"

fun read_digits :: "nat \<Rightarrow> string \<Rightarrow> nat option" where
  "read_digits acc [] = Some acc"
| "read_digits acc (c # cs) =
     (case char_digit c of None \<Rightarrow> None | Some d \<Rightarrow> read_digits (10 * acc + d) cs)"

definition read_nat :: "string \<Rightarrow> nat option" where
  "read_nat cs = (if cs = [] then None else read_digits 0 cs)"

definition read_int :: "string \<Rightarrow> int option" where
  "read_int cs =
     (case cs of
        [] \<Rightarrow> None
      | c # ds \<Rightarrow>
          (if c = CHR ''-'' then map_option (\<lambda>n. - int n) (read_nat ds)
           else map_option int (read_nat cs)))"

lemma digit_chars:
  "digit_char 0 = CHR ''0''" "digit_char (Suc 0) = CHR ''1''" "digit_char 2 = CHR ''2''" "digit_char 3 = CHR ''3''"
  "digit_char 4 = CHR ''4''" "digit_char 5 = CHR ''5''" "digit_char 6 = CHR ''6''" "digit_char 7 = CHR ''7''"
  "digit_char 8 = CHR ''8''" "digit_char 9 = CHR ''9''"
  by code_simp+

lemma char_digit_digit_char [simp]: "d < 10 \<Longrightarrow> char_digit (digit_char d) = Some d"
  by (simp add: char_digit_def digit_char_def Let_def take_bit_eq_mod)

lemma read_digits_append:
  "read_digits a (xs @ ys) = Option.bind (read_digits a xs) (\<lambda>b. read_digits b ys)"
  by (induction a xs rule: read_digits.induct) (auto split: option.split)

lemma dec_nat_not_Nil [simp]: "dec_nat n \<noteq> []"
  by (subst dec_nat.simps) simp

lemma read_digits_dec_nat [simp]: "read_digits 0 (dec_nat n) = Some n"
proof (induction n rule: dec_nat.induct)
  case (1 n)
  show ?case
  proof (cases "n < 10")
    case True
    then show ?thesis by (simp add: dec_nat.simps [of n])
  next
    case False
    with 1 show ?thesis by (simp add: dec_nat.simps [of n] read_digits_append)
  qed
qed

lemma dec_nat_digits: "c \<in> set (dec_nat n) \<Longrightarrow> char_digit c \<noteq> None"
proof (induction n rule: dec_nat.induct)
  case (1 n)
  then show ?case
    by (subst (asm) (2) dec_nat.simps) (auto split: if_splits)
qed

lemma not_in_dec_nat: "char_digit c = None \<Longrightarrow> c \<notin> set (dec_nat n)"
  using dec_nat_digits by metis

lemma char_digit_minus: "char_digit (CHR ''-'') = None" and char_digit_bar: "char_digit (CHR ''|'') = None"
  by (simp_all add: char_digit_def Let_def)

lemma read_int_dec [simp]: "read_int (dec i) = Some i"
proof (cases "i < 0")
  case True
  then show ?thesis by (simp add: read_int_def dec_def read_nat_def)
next
  case False
  obtain c ds where cs: "dec_nat (nat i) = c # ds"
    using dec_nat_not_Nil [of "nat i"] by (cases "dec_nat (nat i)") auto
  have "c \<noteq> CHR ''-''"
    using cs not_in_dec_nat [OF char_digit_minus, of "nat i"] by auto
  with False cs show ?thesis
    by (simp add: read_int_def dec_def read_nat_def)
       (metis cs option.simps(9) read_digits.simps(2) read_digits_dec_nat int_nat_eq linorder_not_less)
qed

lemma dec_inject [simp]: "dec i = dec j \<longleftrightarrow> i = j"
  by (metis option.inject read_int_dec)

lemma bar_not_in_dec: "CHR ''|'' \<notin> set (dec i)"
  using not_in_dec_nat [OF char_digit_bar] by (simp add: dec_def)

subsection \<open>Go integers and times\<close>

text \<open>
  Go's integer division truncates towards zero; \<open>int\<close> is 64 bits wide and wraps. A \<^verbatim>\<open>time.Duration\<close>
  is a count of nanoseconds, a \<^verbatim>\<open>time.Time\<close> is represented by the nanoseconds since the Unix epoch, so
  that \<^verbatim>\<open>t.Unix()\<close> rounds down; the zero \<^verbatim>\<open>time.Time\<close> is the first instant of the year 1.
\<close>

type_synonym time = int
type_synonym duration = int

definition go_div :: "int \<Rightarrow> int \<Rightarrow> int" where
  "go_div a b = sgn a * sgn b * (\<bar>a\<bar> div \<bar>b\<bar>)"

definition wrap64 :: "int \<Rightarrow> int" where
  "wrap64 x = sint (word_of_int x :: 64 word)"

definition time_Second :: duration where "time_Second = 1000000000"
definition time_Hour :: duration where "time_Hour = 3600 * time_Second"
definition zero_time :: time where "zero_time = - 62135596800 * time_Second"

definition time_Unix :: "time \<Rightarrow> int" where
  "time_Unix t = t div time_Second"

lemma go_div_nonneg: "0 \<le> a \<Longrightarrow> 0 < b \<Longrightarrow> go_div a b = a div b"
  by (cases "a = 0") (simp_all add: go_div_def)

lemma go_div_mono: "0 < b \<Longrightarrow> a \<le> c * b \<Longrightarrow> 0 \<le> c \<Longrightarrow> go_div a b \<le> c"
proof (cases "0 \<le> a")
  case True
  assume "0 < b" "a \<le> c * b"
  with True show ?thesis
    by (simp add: go_div_nonneg) (metis zdiv_mono1 nonzero_mult_div_cancel_right less_numeral_extra(3))
next
  case False
  assume "0 < b" "0 \<le> c"
  moreover from False \<open>0 < b\<close> have "go_div a b \<le> 0"
    by (simp add: go_div_def pos_imp_zdiv_nonneg_iff)
  ultimately show ?thesis by simp
qed

lemma wrap64_id: "- (2 ^ 63) \<le> x \<Longrightarrow> x < 2 ^ 63 \<Longrightarrow> wrap64 x = x"
  by (simp add: wrap64_def sint_sbintrunc' signed_take_bit_int_eq_self)

lemma wrap64_range: "- (2 ^ 63) \<le> wrap64 x \<and> wrap64 x < 2 ^ 63"
  using sint_range_size [of "word_of_int x :: 64 word"] by (simp add: wrap64_def word_size)

end
