(* ===== verification/Redis_Store.thy ===== *)
theory Redis_Store
  imports Prelude "HOL-Library.Multiset"
begin

text \<open>
  The interface to Redis. Redis and the go-redis client are not part of the repository, so the
  crawler's code is modelled over a parameter \<^term>\<open>eval\<close>, the call \<^verbatim>\<open>script.Run(ctx, client, keys, args)\<close>:
  it takes a script and a database and gives a reply or an error, and the database afterwards. What
  the code relies on is the locale \<open>redis_server\<close> below: a reply means the script ran to its
  end, each command having its documented effect; an error means it stopped after some prefix of its
  commands, with nothing rolled back (a refused command, a lost connection, or a reply lost after the
  script had already finished). \<open>redis_reliable\<close> adds that a script that can finish does.

  A script is the tree of the \<^verbatim>\<open>redis.call\<close>s it makes: each node is one command and the continuation
  on its reply, so that "the script stopped here" has a meaning.
\<close>

subsection \<open>The data a database holds\<close>

text \<open>
  A sorted set is the list of its (score, member) pairs in the order in which Redis ranges over it:
  by score, then by the bytes of the member. Scores are integers: every score the program writes is a
  Unix time or the fixed PendingScore, far below the 2^53 up to which doubles are exact.
\<close>

type_synonym zset = "(int \<times> string) list"
type_synonym hash = "(string \<times> string) list"

record db =
  dlists :: "string \<Rightarrow> string list"
  dzsets :: "string \<Rightarrow> zset"
  dhashes :: "string \<Rightarrow> hash"
  dints :: "string \<Rightarrow> int"
  dbloom :: "string \<Rightarrow> string set"

definition empty_db :: db where
  "empty_db = \<lparr>dlists = (\<lambda>_. []), dzsets = (\<lambda>_. []), dhashes = (\<lambda>_. []), dints = (\<lambda>_. 0), dbloom = (\<lambda>_. {})\<rparr>"

primrec zscore :: "zset \<Rightarrow> string \<Rightarrow> int option" where
  "zscore [] m = None"
| "zscore (p # z) m = (if snd p = m then Some (fst p) else zscore z m)"

definition zmembers :: "zset \<Rightarrow> string set" where
  "zmembers z = snd ` set z"

definition zrem :: "string \<Rightarrow> zset \<Rightarrow> zset" where
  "zrem m z = filter (\<lambda>p. snd p \<noteq> m) z"

definition zadd :: "int \<Rightarrow> string \<Rightarrow> zset \<Rightarrow> zset" where
  "zadd sc m z = insort (sc, m) (zrem m z)"

definition zrange :: "int \<Rightarrow> int \<Rightarrow> zset \<Rightarrow> string list" where
  \<comment> \<open>ZRANGEBYSCORE -inf mx LIMIT 0 n: a negative count means no limit\<close>
  "zrange mx n z =
     (let due = map snd (filter (\<lambda>p. fst p \<le> mx) z) in if n < 0 then due else take (nat n) due)"

definition lrange :: "int \<Rightarrow> int \<Rightarrow> string list \<Rightarrow> string list" where
  \<comment> \<open>LRANGE start stop, negative indices counting from the end, both ends included\<close>
  "lrange a b xs =
     (let n = int (length xs);
          start = max 0 (if a < 0 then n + a else a);
          stop = (if b < 0 then n + b else b)
      in if stop < start then [] else take (nat (stop - start + 1)) (drop (nat start) xs))"

text \<open>Sorted sets are sorted and name each member once; every command keeps that.\<close>

definition zset_ok :: "zset \<Rightarrow> bool" where
  "zset_ok z \<longleftrightarrow> sorted z \<and> distinct (map snd z)"

lemma zset_ok_Nil [simp]: "zset_ok []"
  by (simp add: zset_ok_def)

lemma zscore_None_iff [simp]: "zscore z m = None \<longleftrightarrow> m \<notin> zmembers z"
  by (induction z) (auto simp: zmembers_def)

lemma zscore_Some_member: "zscore z m = Some sc \<Longrightarrow> m \<in> zmembers z"
  using zscore_None_iff by (metis option.distinct(1))

lemma zmembers_Nil [simp]: "zmembers [] = {}"
  by (simp add: zmembers_def)

lemma zmembers_zrem [simp]: "zmembers (zrem m z) = zmembers z - {m}"
  by (auto simp: zmembers_def zrem_def)

lemma zmembers_zadd [simp]: "zmembers (zadd sc m z) = insert m (zmembers z)"
  by (auto simp: zmembers_def zadd_def zrem_def set_insort_key)

lemma zscore_zrem [simp]: "zscore (zrem m z) m' = (if m' = m then None else zscore z m')"
  by (induction z) (auto simp: zrem_def zmembers_def)

lemma zscore_insort: "m \<notin> zmembers z \<Longrightarrow> zscore (insort (sc, m) z) m' = (if m' = m then Some sc else zscore z m')"
  by (induction z) (auto simp: zmembers_def)

lemma zscore_zadd [simp]: "zscore (zadd sc m z) m' = (if m' = m then Some sc else zscore z m')"
  by (simp add: zadd_def zscore_insort)

lemma zset_ok_zrem [intro]: "zset_ok z \<Longrightarrow> zset_ok (zrem m z)"
  by (auto simp: zset_ok_def zrem_def sorted_wrt_filter distinct_map_filter)

lemma zset_ok_zadd [intro]: "zset_ok z \<Longrightarrow> zset_ok (zadd sc m z)"
proof -
  assume z: "zset_ok z"
  let ?z = "zrem m z"
  have "m \<notin> snd ` set ?z"
    using zmembers_zrem [of m z] by (auto simp: zmembers_def)
  moreover have "distinct (map snd ?z)" "sorted ?z"
    using zset_ok_zrem [OF z] by (auto simp: zset_ok_def)
  moreover have "distinct (map snd (insort (sc, m) ?z)) \<longleftrightarrow> distinct (m # map snd ?z)"
    by (rule mset_eq_imp_distinct_iff) (simp add: mset_insort)
  ultimately show ?thesis
    by (simp add: zset_ok_def zadd_def sorted_insort)
qed

lemma zscore_in_set: "zset_ok z \<Longrightarrow> (sc, m) \<in> set z \<Longrightarrow> zscore z m = Some sc"
  by (induction z) (auto simp: zset_ok_def image_iff)

lemma zscore_Some_in_set: "zscore z m = Some sc \<Longrightarrow> (sc, m) \<in> set z"
  by (induction z) (auto split: if_splits)

lemma zrange_members: "set (zrange mx n z) \<subseteq> zmembers z"
  by (auto simp: zrange_def zmembers_def Let_def dest!: in_set_takeD split: if_splits)

lemma zrange_due:
  assumes "zset_ok z" and "m \<in> set (zrange mx n z)"
  shows "\<exists>sc. zscore z m = Some sc \<and> sc \<le> mx"
proof -
  from assms(2) obtain sc where "(sc, m) \<in> set z" "sc \<le> mx"
    by (auto simp: zrange_def Let_def dest!: in_set_takeD split: if_splits)
  with assms(1) show ?thesis by (blast intro: zscore_in_set)
qed

lemma distinct_zrange: "zset_ok z \<Longrightarrow> distinct (zrange mx n z)"
  by (auto simp: zrange_def Let_def zset_ok_def distinct_map_filter)

subsection \<open>Commands and replies\<close>

datatype reply = RNil | RInt int | RBulk string | RArr "string list"

datatype cmd =
    LMOVE string string               \<comment> \<open>source, destination; RIGHT LEFT\<close>
  | LPUSH string string
  | LREM string string                \<comment> \<open>count 1: the first equal element\<close>
  | LRANGE string int int
  | LLEN string
  | ZADD string int string
  | ZADDNX string int string
  | ZREM string string
  | ZSCORE string string
  | ZRANGEBYSCORE string int int      \<comment> \<open>-inf to the bound, LIMIT 0 count\<close>
  | ZCARD string
  | ZCOUNT string "int option" int    \<comment> \<open>lower bound None is -inf\<close>
  | HGET string string
  | HSET string string string
  | HDEL string string
  | HINCRBY string string int
  | HLEN string
  | INCR string
  | BFADD string string

text \<open>
  What a command that is carried out replies and changes; None where Redis answers with an error
  (HINCRBY on a field that is no integer). BF.ADD is described separately, because the filter's
  hash functions are not known: it may answer 0 for an item that was never added.
\<close>

fun cmd_fun :: "cmd \<Rightarrow> db \<Rightarrow> (reply \<times> db) option" where
  "cmd_fun (LMOVE k k') s =
     (if dlists s k = [] then Some (RNil, s)
      else let x = last (dlists s k);
               l1 = (dlists s)(k := butlast (dlists s k))
           in Some (RBulk x, s\<lparr>dlists := l1(k' := x # l1 k')\<rparr>))"
| "cmd_fun (LPUSH k x) s =
     Some (RInt (int (length (dlists s k)) + 1), s\<lparr>dlists := (dlists s)(k := x # dlists s k)\<rparr>)"
| "cmd_fun (LREM k x) s =
     Some (RInt (if x \<in> set (dlists s k) then 1 else 0), s\<lparr>dlists := (dlists s)(k := remove1 x (dlists s k))\<rparr>)"
| "cmd_fun (LRANGE k a b) s = Some (RArr (lrange a b (dlists s k)), s)"
| "cmd_fun (LLEN k) s = Some (RInt (int (length (dlists s k))), s)"
| "cmd_fun (ZADD k sc m) s =
     Some (RInt (if zscore (dzsets s k) m = None then 1 else 0),
           s\<lparr>dzsets := (dzsets s)(k := zadd sc m (dzsets s k))\<rparr>)"
| "cmd_fun (ZADDNX k sc m) s =
     (if zscore (dzsets s k) m = None
      then Some (RInt 1, s\<lparr>dzsets := (dzsets s)(k := zadd sc m (dzsets s k))\<rparr>)
      else Some (RInt 0, s))"
| "cmd_fun (ZREM k m) s =
     Some (RInt (if zscore (dzsets s k) m = None then 0 else 1),
           s\<lparr>dzsets := (dzsets s)(k := zrem m (dzsets s k))\<rparr>)"
| "cmd_fun (ZSCORE k m) s =
     Some (case zscore (dzsets s k) m of None \<Rightarrow> RNil | Some sc \<Rightarrow> RBulk (dec sc), s)"
| "cmd_fun (ZRANGEBYSCORE k mx n) s = Some (RArr (zrange mx n (dzsets s k)), s)"
| "cmd_fun (ZCARD k) s = Some (RInt (int (length (dzsets s k))), s)"
| "cmd_fun (ZCOUNT k lo hi) s =
     Some (RInt (int (length (filter (\<lambda>p. (case lo of None \<Rightarrow> True | Some l \<Rightarrow> l \<le> fst p) \<and> fst p \<le> hi) (dzsets s k)))), s)"
| "cmd_fun (HGET k f) s =
     Some (case map_of (dhashes s k) f of None \<Rightarrow> RNil | Some v \<Rightarrow> RBulk v, s)"
| "cmd_fun (HSET k f v) s =
     Some (RInt (if map_of (dhashes s k) f = None then 1 else 0),
           s\<lparr>dhashes := (dhashes s)(k := AList.update f v (dhashes s k))\<rparr>)"
| "cmd_fun (HDEL k f) s =
     Some (RInt (if map_of (dhashes s k) f = None then 0 else 1),
           s\<lparr>dhashes := (dhashes s)(k := AList.delete f (dhashes s k))\<rparr>)"
| "cmd_fun (HINCRBY k f n) s =
     (case (case map_of (dhashes s k) f of None \<Rightarrow> Some 0 | Some v \<Rightarrow> read_int v) of
        None \<Rightarrow> None
      | Some i \<Rightarrow> Some (RInt (i + n), s\<lparr>dhashes := (dhashes s)(k := AList.update f (dec (i + n)) (dhashes s k))\<rparr>))"
| "cmd_fun (HLEN k) s = Some (RInt (int (length (dhashes s k))), s)"
| "cmd_fun (INCR k) s = Some (RInt (dints s k + 1), s\<lparr>dints := (dints s)(k := dints s k + 1)\<rparr>)"
| "cmd_fun (BFADD k x) s = None"

text \<open>
  The positives of a Bloom filter are the items it answers 1 for under BF.EXISTS. Adding an item sets
  its bits: the item becomes positive, others may become positive with it, none stops being positive.
  The reply is 1 when some bit changed, that is when the item was not yet positive.
\<close>

definition bf_add :: "string \<Rightarrow> string \<Rightarrow> db \<Rightarrow> reply \<Rightarrow> db \<Rightarrow> bool" where
  "bf_add k x s r s' \<longleftrightarrow>
     (if x \<in> dbloom s k then r = RInt 0 \<and> s' = s
      else r = RInt 1 \<and> (\<exists>P. insert x (dbloom s k) \<subseteq> P \<and> s' = s\<lparr>dbloom := (dbloom s)(k := P)\<rparr>))"

definition cmd_sem :: "cmd \<Rightarrow> db \<Rightarrow> reply \<Rightarrow> db \<Rightarrow> bool" where
  "cmd_sem c s r s' \<longleftrightarrow> (case c of BFADD k x \<Rightarrow> bf_add k x s r s' | _ \<Rightarrow> cmd_fun c s = Some (r, s'))"

subsection \<open>Scripts\<close>

datatype script = Return reply | LuaError | Call cmd "reply \<Rightarrow> script"

text \<open>
  Two readings of a script: it ran to its end with a reply, or it stopped after some prefix of its
  commands (all of them included: the reply may be lost). A Lua runtime error stops it where it is.
\<close>

primrec completes :: "script \<Rightarrow> db \<Rightarrow> reply \<Rightarrow> db \<Rightarrow> bool" where
  "completes (Return a) s r s' = (r = a \<and> s' = s)"
| "completes LuaError s r s' = False"
| "completes (Call c k) s r s' = (\<exists>q s1. cmd_sem c s q s1 \<and> completes (k q) s1 r s')"

primrec aborts :: "script \<Rightarrow> db \<Rightarrow> db \<Rightarrow> bool" where
  "aborts (Return a) s s' = (s' = s)"
| "aborts LuaError s s' = (s' = s)"
| "aborts (Call c k) s s' = (s' = s \<or> (\<exists>q s1. cmd_sem c s q s1 \<and> aborts (k q) s1 s'))"

text \<open>
  \<open>always I Q sc s\<close>: from \<open>s\<close>, every database between two commands of the script satisfies \<open>I\<close>,
  wherever it stops, and a reply comes with \<open>Q\<close>. The rule \<open>always_Call\<close> walks a script command by
  command; \<open>cannot_fail\<close> says that no command and no Lua expression of the script can fail from \<open>s\<close>.
\<close>

primrec always :: "(db \<Rightarrow> bool) \<Rightarrow> (reply \<Rightarrow> db \<Rightarrow> bool) \<Rightarrow> script \<Rightarrow> db \<Rightarrow> bool" where
  "always I Q (Return a) s = (I s \<and> Q a s)"
| "always I Q LuaError s = I s"
| "always I Q (Call c k) s = (I s \<and> (\<forall>q s1. cmd_sem c s q s1 \<longrightarrow> always I Q (k q) s1))"

primrec cannot_fail :: "script \<Rightarrow> db \<Rightarrow> bool" where
  "cannot_fail (Return a) s = True"
| "cannot_fail LuaError s = False"
| "cannot_fail (Call c k) s =
     ((\<exists>q s1. cmd_sem c s q s1) \<and> (\<forall>q s1. cmd_sem c s q s1 \<longrightarrow> cannot_fail (k q) s1))"

lemma always_start: "always I Q sc s \<Longrightarrow> I s"
  by (cases sc) auto

lemma always_aborts: "always I Q sc s \<Longrightarrow> aborts sc s s' \<Longrightarrow> I s'"
  by (induction sc arbitrary: s) auto

lemma always_completes: "always I Q sc s \<Longrightarrow> completes sc s r s' \<Longrightarrow> I s' \<and> Q r s'"
  by (induction sc arbitrary: s) auto

lemma always_mono:
  "always I Q sc s \<Longrightarrow> (\<And>r t. I t \<Longrightarrow> Q r t \<Longrightarrow> Q' r t) \<Longrightarrow> always I Q' sc s"
  by (induction sc arbitrary: s) auto

lemma always_conj:
  "always I Q sc s \<Longrightarrow> always I' Q' sc s \<Longrightarrow> always (\<lambda>t. I t \<and> I' t) (\<lambda>r t. Q r t \<and> Q' r t) sc s"
  by (induction sc arbitrary: s) auto

lemma total_completes: "cannot_fail sc s \<Longrightarrow> \<exists>r s'. completes sc s r s'"
  by (induction sc arbitrary: s) fastforce+

text \<open>
  A script that adds to no Bloom filter has one outcome: \<open>run_det\<close> computes it, None where a command
  or a Lua expression fails.
\<close>

primrec run_det :: "script \<Rightarrow> db \<Rightarrow> (reply \<times> db) option" where
  "run_det (Return a) s = Some (a, s)"
| "run_det LuaError s = None"
| "run_det (Call c k) s = (case cmd_fun c s of None \<Rightarrow> None | Some (q, s1) \<Rightarrow> run_det (k q) s1)"

lemma cmd_sem_det: "cmd_fun c s = Some (q, s1) \<Longrightarrow> cmd_sem c s q' s1' \<longleftrightarrow> q' = q \<and> s1' = s1"
  by (cases c) (auto simp: cmd_sem_def)

lemma run_det_completes: "run_det sc s = Some (r, t) \<Longrightarrow> completes sc s r' t' \<longleftrightarrow> r' = r \<and> t' = t"
  by (induction sc arbitrary: s) (auto split: option.splits simp: cmd_sem_det)

lemma run_det_cannot_fail: "run_det sc s = Some (r, t) \<Longrightarrow> cannot_fail sc s"
  by (induction sc arbitrary: s) (fastforce split: option.splits simp: cmd_sem_det)+

text \<open>The meaning of each command, as rewrite rules.\<close>

lemma cmd_sem_simps [store_simps]:
  "cmd_sem (LMOVE k k') s r t \<longleftrightarrow> cmd_fun (LMOVE k k') s = Some (r, t)"
  "cmd_sem (LPUSH k x) s r t \<longleftrightarrow> cmd_fun (LPUSH k x) s = Some (r, t)"
  "cmd_sem (LREM k x) s r t \<longleftrightarrow> cmd_fun (LREM k x) s = Some (r, t)"
  "cmd_sem (LRANGE k a b) s r t \<longleftrightarrow> cmd_fun (LRANGE k a b) s = Some (r, t)"
  "cmd_sem (LLEN k) s r t \<longleftrightarrow> cmd_fun (LLEN k) s = Some (r, t)"
  "cmd_sem (ZADD k sc m) s r t \<longleftrightarrow> cmd_fun (ZADD k sc m) s = Some (r, t)"
  "cmd_sem (ZADDNX k sc m) s r t \<longleftrightarrow> cmd_fun (ZADDNX k sc m) s = Some (r, t)"
  "cmd_sem (ZREM k m) s r t \<longleftrightarrow> cmd_fun (ZREM k m) s = Some (r, t)"
  "cmd_sem (ZSCORE k m) s r t \<longleftrightarrow> cmd_fun (ZSCORE k m) s = Some (r, t)"
  "cmd_sem (ZRANGEBYSCORE k mx n) s r t \<longleftrightarrow> cmd_fun (ZRANGEBYSCORE k mx n) s = Some (r, t)"
  "cmd_sem (ZCARD k) s r t \<longleftrightarrow> cmd_fun (ZCARD k) s = Some (r, t)"
  "cmd_sem (ZCOUNT k lo hi) s r t \<longleftrightarrow> cmd_fun (ZCOUNT k lo hi) s = Some (r, t)"
  "cmd_sem (HGET k f) s r t \<longleftrightarrow> cmd_fun (HGET k f) s = Some (r, t)"
  "cmd_sem (HSET k f v) s r t \<longleftrightarrow> cmd_fun (HSET k f v) s = Some (r, t)"
  "cmd_sem (HDEL k f) s r t \<longleftrightarrow> cmd_fun (HDEL k f) s = Some (r, t)"
  "cmd_sem (HINCRBY k f n) s r t \<longleftrightarrow> cmd_fun (HINCRBY k f n) s = Some (r, t)"
  "cmd_sem (HLEN k) s r t \<longleftrightarrow> cmd_fun (HLEN k) s = Some (r, t)"
  "cmd_sem (INCR k) s r t \<longleftrightarrow> cmd_fun (INCR k) s = Some (r, t)"
  "cmd_sem (BFADD k x) s r t \<longleftrightarrow> bf_add k x s r t"
  by (simp_all add: cmd_sem_def)

subsection \<open>The server\<close>

datatype rerr = ServerError string | NetworkError string

type_synonym server = "script \<Rightarrow> db \<Rightarrow> (rerr + reply) \<times> db"

locale redis_server =
  fixes eval :: server
  assumes eval_done: "eval sc s = (Inr r, s') \<Longrightarrow> completes sc s r s'"
    and eval_failed: "eval sc s = (Inl e, s') \<Longrightarrow> aborts sc s s'"
begin

lemma eval_inv: "always I Q sc s \<Longrightarrow> I (snd (eval sc s))"
  by (cases "eval sc s"; cases "fst (eval sc s)")
     (auto dest: eval_done eval_failed always_completes always_aborts)

lemma eval_post: "always I Q sc s \<Longrightarrow> eval sc s = (Inr r, s') \<Longrightarrow> Q r s'"
  by (auto dest: eval_done always_completes)

end

locale redis_reliable = redis_server +
  assumes eval_total: "cannot_fail sc s \<Longrightarrow> \<exists>r s'. eval sc s = (Inr r, s')"
begin

lemma eval_run_det: "run_det sc s = Some (r, t) \<Longrightarrow> eval sc s = (Inr r, t)"
  using eval_total [OF run_det_cannot_fail] eval_done run_det_completes by fastforce

end

text \<open>
  A reference server: commands as documented, with a Bloom filter that has no false positives; and
  the same server whose connection is lost after \<open>n\<close> commands.
\<close>

fun ref_cmd :: "cmd \<Rightarrow> db \<Rightarrow> (reply \<times> db) option" where
  "ref_cmd (BFADD k x) s =
     (if x \<in> dbloom s k then Some (RInt 0, s)
      else Some (RInt 1, s\<lparr>dbloom := (dbloom s)(k := insert x (dbloom s k))\<rparr>))"
| "ref_cmd c s = cmd_fun c s"

primrec ref_eval :: server where
  "ref_eval (Return a) s = (Inr a, s)"
| "ref_eval LuaError s = (Inl (ServerError ''ERR lua''), s)"
| "ref_eval (Call c k) s =
     (case ref_cmd c s of None \<Rightarrow> (Inl (ServerError ''ERR''), s) | Some (q, s1) \<Rightarrow> ref_eval (k q) s1)"

primrec crash_run :: "script \<Rightarrow> nat \<Rightarrow> db \<Rightarrow> (rerr + reply) \<times> db" where
  "crash_run (Return a) n s = (if n = 0 then (Inl (NetworkError ''EOF''), s) else (Inr a, s))"
| "crash_run LuaError n s = (Inl (ServerError ''ERR lua''), s)"
| "crash_run (Call c k) n s =
     (if n = 0 then (Inl (NetworkError ''EOF''), s)
      else case ref_cmd c s of None \<Rightarrow> (Inl (ServerError ''ERR''), s) | Some (q, s1) \<Rightarrow> crash_run (k q) (n - 1) s1)"

definition crash_eval :: "nat \<Rightarrow> server" where
  "crash_eval n sc s = crash_run sc n s"

lemma ref_cmd_sem: "ref_cmd c s = Some (q, s1) \<Longrightarrow> cmd_sem c s q s1"
  by (cases c) (auto simp: cmd_sem_def bf_add_def split: if_splits)

lemma cmd_sem_ref: "cmd_sem c s q s1 \<Longrightarrow> \<exists>q' s1'. ref_cmd c s = Some (q', s1')"
  by (cases c) (auto simp: cmd_sem_def bf_add_def split: if_splits)

lemma ref_eval_done: "ref_eval sc s = (Inr r, s') \<Longrightarrow> completes sc s r s'"
  by (induction sc arbitrary: s) (fastforce split: option.splits dest: ref_cmd_sem)+

lemma ref_eval_failed: "ref_eval sc s = (Inl e, s') \<Longrightarrow> aborts sc s s'"
  by (induction sc arbitrary: s) (fastforce split: option.splits dest: ref_cmd_sem)+

lemma ref_eval_total: "cannot_fail sc s \<Longrightarrow> \<exists>r s'. ref_eval sc s = (Inr r, s')"
proof (induction sc arbitrary: s)
  case (Call c k)
  then obtain q s1 where "ref_cmd c s = Some (q, s1)"
    using cmd_sem_ref by fastforce
  with Call show ?case
    by (auto dest: ref_cmd_sem)
qed auto

lemma crash_run_done: "crash_run sc n s = (Inr r, s') \<Longrightarrow> completes sc s r s'"
  by (induction sc arbitrary: s n) (fastforce split: option.splits if_splits dest: ref_cmd_sem)+

lemma crash_run_failed: "crash_run sc n s = (Inl e, s') \<Longrightarrow> aborts sc s s'"
  by (induction sc arbitrary: s n) (fastforce split: option.splits if_splits dest: ref_cmd_sem)+

interpretation ref: redis_reliable ref_eval
  by unfold_locales (auto intro: ref_eval_done ref_eval_failed ref_eval_total)

interpretation crash: redis_server "crash_eval n" for n
  by unfold_locales (auto simp: crash_eval_def intro: crash_run_done crash_run_failed)

end
