(* ===== verification/Frontier_Scripts.thy ===== *)
theory Frontier_Scripts
  imports Redis_Store
begin

text \<open>
  The frontier's keyspace and its twelve Lua scripts (\<^verbatim>\<open>internal/storage/frontier.go\<close>), each as the
  tree of its \<^verbatim>\<open>redis.call\<close>s in the order the script makes them. The arguments of a definition are the
  script's KEYS, then its ARGV; numeric arguments, which the Go wrappers format and the script parses
  back with \<^verbatim>\<open>tonumber\<close>, are integers here.
\<close>

subsection \<open>Keys\<close>

type_synonym key = string

definition keyJobSeq :: key where "keyJobSeq = ''crawler:job:seq''"
definition keyReady :: key where "keyReady = ''crawler:ready''"
definition keyProcessing :: key where "keyProcessing = ''crawler:processing''"
definition keyLease :: key where "keyLease = ''crawler:lease''"
definition keyDelayed :: key where "keyDelayed = ''crawler:delayed''"
definition keyDead :: key where "keyDead = ''crawler:dead''"
definition keyAttempts :: key where "keyAttempts = ''crawler:attempts''"
definition keyStrikes :: key where "keyStrikes = ''crawler:strikes''"
definition keyListingNext :: key where "keyListingNext = ''crawler:listing:next''"
definition keyListingBarren :: key where "keyListingBarren = ''crawler:listing:barren''"
definition bloomKey :: key where "bloomKey = ''crawler:bloom''"

definition PendingScore :: int where "PendingScore = 253402300799"

lemmas key_defs = keyJobSeq_def keyReady_def keyProcessing_def keyLease_def keyDelayed_def keyDead_def
  keyAttempts_def keyStrikes_def keyListingNext_def keyListingBarren_def bloomKey_def

lemma keys_distinct [simp]:
  "keyReady \<noteq> keyProcessing" "keyProcessing \<noteq> keyReady"
  "keyLease \<noteq> keyDelayed" "keyDelayed \<noteq> keyLease"
  "keyLease \<noteq> keyListingNext" "keyListingNext \<noteq> keyLease"
  "keyDelayed \<noteq> keyListingNext" "keyListingNext \<noteq> keyDelayed"
  "keyDead \<noteq> keyAttempts" "keyAttempts \<noteq> keyDead"
  "keyDead \<noteq> keyStrikes" "keyStrikes \<noteq> keyDead"
  "keyDead \<noteq> keyListingBarren" "keyListingBarren \<noteq> keyDead"
  "keyAttempts \<noteq> keyStrikes" "keyStrikes \<noteq> keyAttempts"
  "keyAttempts \<noteq> keyListingBarren" "keyListingBarren \<noteq> keyAttempts"
  "keyStrikes \<noteq> keyListingBarren" "keyListingBarren \<noteq> keyStrikes"
  by (simp_all add: key_defs)

subsection \<open>Lua idioms\<close>

text \<open>
  \<^verbatim>\<open>redis.call('INCR', k) .. '|' .. url\<close>. Lua 5.1 prints the number with \<^verbatim>\<open>%.14g\<close>, which is its decimal
  notation below 10^14.
\<close>

definition job_member :: "int \<Rightarrow> string \<Rightarrow> string" where
  "job_member n url = dec n @ ''|'' @ url"

text \<open>\<^verbatim>\<open>string.sub(x, string.find(x, '|', 1, true) + 1)\<close>: an error when there is no bar.\<close>

definition after_bar :: "string \<Rightarrow> string option" where
  "after_bar x = (case dropWhile (\<lambda>c. c \<noteq> CHR ''|'') x of [] \<Rightarrow> None | _ # rest \<Rightarrow> Some rest)"

text \<open>The deadline in a value of the dead hash, \<^verbatim>\<open>"<reason>|<until>"\<close>.\<close>

definition until_of :: "string \<Rightarrow> int option" where
  "until_of d = Option.bind (after_bar d) read_int"

definition call_int :: "cmd \<Rightarrow> (int \<Rightarrow> script) \<Rightarrow> script" where
  "call_int c k = Call c (\<lambda>r. case r of RInt n \<Rightarrow> k n | _ \<Rightarrow> LuaError)"

definition call_bulk :: "cmd \<Rightarrow> (string option \<Rightarrow> script) \<Rightarrow> script" where
  "call_bulk c k = Call c (\<lambda>r. case r of RBulk x \<Rightarrow> k (Some x) | RNil \<Rightarrow> k None | _ \<Rightarrow> LuaError)"

definition call_arr :: "cmd \<Rightarrow> (string list \<Rightarrow> script) \<Rightarrow> script" where
  "call_arr c k = Call c (\<lambda>r. case r of RArr xs \<Rightarrow> k xs | _ \<Rightarrow> LuaError)"

definition call_do :: "cmd \<Rightarrow> script \<Rightarrow> script" where
  "call_do c sc = Call c (\<lambda>_. sc)"

lemmas call_defs [script_defs] = call_int_def call_bulk_def call_arr_def call_do_def

lemma after_bar_append: "CHR ''|'' \<notin> set x \<Longrightarrow> after_bar (x @ ''|'' @ y) = Some y"
proof -
  assume "CHR ''|'' \<notin> set x"
  then have "dropWhile (\<lambda>c. c \<noteq> CHR ''|'') (x @ CHR ''|'' # y) = CHR ''|'' # y"
    by (subst dropWhile_append2) auto
  then show ?thesis by (simp add: after_bar_def)
qed

lemma after_bar_job_member [simp]: "after_bar (job_member n url) = Some url"
  by (simp only: job_member_def after_bar_append [OF bar_not_in_dec])

lemma until_of_append: "CHR ''|'' \<notin> set reason \<Longrightarrow> until_of (reason @ ''|'' @ dec t) = Some t"
  using after_bar_append [of reason "dec t"] by (simp add: until_of_def)

lemma job_member_inject [simp]: "job_member m u = job_member n v \<longleftrightarrow> m = n \<and> u = v"
proof
  assume eq: "job_member m u = job_member n v"
  then have "u = v"
    using after_bar_job_member by (metis option.inject)
  with eq show "m = n \<and> u = v" by (simp add: job_member_def)
qed simp

subsection \<open>Admission\<close>

definition luaLease :: "key \<Rightarrow> key \<Rightarrow> key \<Rightarrow> int \<Rightarrow> int \<Rightarrow> script" where
  "luaLease ready processing lease now leaseTimeout =
     call_bulk (LMOVE ready processing) (\<lambda>item.
       case item of
         None \<Rightarrow> Return RNil
       | Some item \<Rightarrow> call_do (ZADD lease (now + leaseTimeout) item) (Return (RBulk item)))"

definition luaAdmitVideo :: "key \<Rightarrow> key \<Rightarrow> key \<Rightarrow> key \<Rightarrow> string \<Rightarrow> int \<Rightarrow> script" where
  "luaAdmitVideo ready bloom dead jobseq url now =
     (let admit =
            call_int (INCR jobseq) (\<lambda>n. let item = job_member n url in
            call_do (LPUSH ready item) (
            call_int (BFADD bloom url) (\<lambda>added.
              if added = 0 then call_do (LREM ready item) (Return (RInt 0))
              else Return (RInt 1))))
      in call_bulk (HGET dead url) (\<lambda>d.
           case d of
             None \<Rightarrow> admit
           | Some v \<Rightarrow>
               (case until_of v of
                  None \<Rightarrow> LuaError
                | Some until_ts \<Rightarrow>
                    if until_ts = 0 \<or> until_ts > now then Return (RInt 0)
                    else call_do (HDEL dead url) admit)))"

definition luaAdmitListing ::
  "key \<Rightarrow> key \<Rightarrow> key \<Rightarrow> key \<Rightarrow> string \<Rightarrow> int \<Rightarrow> int \<Rightarrow> script" where
  "luaAdmitListing ready listing_next dead jobseq url now pending =
     (let admit =
            call_bulk (ZSCORE listing_next url) (\<lambda>prev.
              let go = call_int (INCR jobseq) (\<lambda>n.
                       call_do (LPUSH ready (job_member n url)) (
                       call_do (ZADD listing_next pending url) (
                       Return (RInt (if prev \<noteq> None then 2 else 1)))))
              in case prev of
                   None \<Rightarrow> go
                 | Some p \<Rightarrow>
                     (case read_int p of
                        None \<Rightarrow> LuaError
                      | Some p \<Rightarrow> if p > now then Return (RInt 0) else go))
      in call_bulk (HGET dead url) (\<lambda>d.
           case d of
             None \<Rightarrow> admit
           | Some v \<Rightarrow>
               (case until_of v of
                  None \<Rightarrow> LuaError
                | Some until_ts \<Rightarrow>
                    if until_ts = 0 \<or> until_ts > now then Return (RInt 0)
                    else call_do (HDEL dead url) admit)))"

text \<open>The body of the scheduler's loop over the page of due listings, with its counter \<open>n\<close>.\<close>

fun scheduler_loop ::
  "key \<Rightarrow> key \<Rightarrow> key \<Rightarrow> key \<Rightarrow> int \<Rightarrow> int \<Rightarrow> int \<Rightarrow> string list \<Rightarrow> script" where
  "scheduler_loop listing_next ready jobseq dead now pending n [] = Return (RInt n)"
| "scheduler_loop listing_next ready jobseq dead now pending n (url # due) =
     (let admit =
            call_int (INCR jobseq) (\<lambda>j.
            call_do (LPUSH ready (job_member j url)) (
            call_do (ZADD listing_next pending url) (
            scheduler_loop listing_next ready jobseq dead now pending (n + 1) due)))
      in call_bulk (HGET dead url) (\<lambda>d.
           case d of
             None \<Rightarrow> admit
           | Some v \<Rightarrow>
               (case until_of v of
                  None \<Rightarrow> LuaError
                | Some until_ts \<Rightarrow>
                    if until_ts = 0 then
                      call_do (ZREM listing_next url) (
                      scheduler_loop listing_next ready jobseq dead now pending n due)
                    else if until_ts > now then
                      call_do (ZADD listing_next until_ts url) (
                      scheduler_loop listing_next ready jobseq dead now pending n due)
                    else call_do (HDEL dead url) admit)))"

definition luaListingScheduler ::
  "key \<Rightarrow> key \<Rightarrow> key \<Rightarrow> key \<Rightarrow> int \<Rightarrow> int \<Rightarrow> int \<Rightarrow> script" where
  "luaListingScheduler listing_next ready jobseq dead now limit pending =
     call_arr (ZRANGEBYSCORE listing_next now limit) (\<lambda>due.
       scheduler_loop listing_next ready jobseq dead now pending 0 due)"

subsection \<open>Resolving a leased job\<close>

definition STALE :: script where "STALE = Return (RBulk ''STALE'')"
definition OK :: script where "OK = Return (RBulk ''OK'')"

definition luaAck :: "key \<Rightarrow> key \<Rightarrow> key \<Rightarrow> key \<Rightarrow> string \<Rightarrow> string \<Rightarrow> script" where
  "luaAck lease processing attempts strikes item url =
     call_int (ZREM lease item) (\<lambda>z. if z = 0 then STALE else
     call_do (LREM processing item) (
     call_do (HDEL attempts url) (
     call_do (HDEL strikes url) OK)))"

definition listing_ttl :: "int \<Rightarrow> int \<Rightarrow> int \<Rightarrow> int" where
  "listing_ttl baseTTL maxTTL barren =
     (let ttl = baseTTL * 2 ^ nat barren in if ttl > maxTTL then maxTTL else ttl)"

definition luaCompleteListing ::
  "key \<Rightarrow> key \<Rightarrow> key \<Rightarrow> key \<Rightarrow> key \<Rightarrow> key \<Rightarrow> key \<Rightarrow>
   string \<Rightarrow> string \<Rightarrow> int \<Rightarrow> int \<Rightarrow> int \<Rightarrow> int \<Rightarrow> script" where
  "luaCompleteListing lease processing listing_next barrens dead attempts strikes
      item url newChildren now baseTTL maxTTL =
     (let finish = (\<lambda>barren :: int.
            call_do (ZADD listing_next (now + listing_ttl baseTTL maxTTL barren) url) (
            call_do (HDEL dead url) (
            call_do (LREM processing item) (
            call_do (HDEL attempts url) (
            call_do (HDEL strikes url) OK)))))
      in call_int (ZREM lease item) (\<lambda>z. if z = 0 then STALE else
         if newChildren > 0 then call_do (HSET barrens url (dec 0)) (finish 0)
         else call_int (HINCRBY barrens url 1) finish))"

definition luaNack :: "key \<Rightarrow> key \<Rightarrow> key \<Rightarrow> key \<Rightarrow> string \<Rightarrow> string \<Rightarrow> script" where
  "luaNack lease ready processing jobseq item url =
     call_int (ZREM lease item) (\<lambda>z. if z = 0 then STALE else
     call_int (INCR jobseq) (\<lambda>n.
     call_do (LPUSH ready (job_member n url)) (
     call_do (LREM processing item) OK)))"

text \<open>
  \<^verbatim>\<open>ARGV[7 + i]\<close> of FAIL: the i-th backoff step, and the argument before the ladder, deadUntil, for
  \<open>i = 0\<close>. (The count of attempts is never negative: HINCRBY starts from 0.)
\<close>

definition backoff_arg :: "int \<Rightarrow> int list \<Rightarrow> int \<Rightarrow> int option" where
  "backoff_arg deadUntil ladder i =
     (if i = 0 then Some deadUntil
      else if 1 \<le> i \<and> i \<le> int (length ladder) then Some (ladder ! nat (i - 1)) else None)"

text \<open>The two ends of FAIL: another attempt after the backoff, or the dead hash.\<close>

definition fail_delay ::
  "key \<Rightarrow> key \<Rightarrow> key \<Rightarrow> string \<Rightarrow> string \<Rightarrow> int \<Rightarrow> int \<Rightarrow> int list \<Rightarrow> int \<Rightarrow> script" where
  "fail_delay processing delayed jobseq item url now deadUntil ladder tries =
     (let n = int (length ladder); i = (if tries > n then n else tries)
      in call_int (INCR jobseq) (\<lambda>j.
         case backoff_arg deadUntil ladder i of
           None \<Rightarrow> LuaError
         | Some backoff \<Rightarrow>
             call_do (ZADD delayed (now + backoff) (job_member j url)) (
             call_do (LREM processing item) (
             Return (RBulk ''DELAYED'')))))"

definition fail_bury ::
  "key \<Rightarrow> key \<Rightarrow> key \<Rightarrow> key \<Rightarrow> key \<Rightarrow> string \<Rightarrow> string \<Rightarrow> string \<Rightarrow> int \<Rightarrow> script" where
  "fail_bury processing dead attempts strikes listing_next item url reason deadUntil =
     (let bury =
            call_do (HSET dead url (reason @ ''|'' @ dec deadUntil)) (
            call_do (LREM processing item) (
            call_do (HDEL attempts url) (
            call_do (HDEL strikes url) (
            Return (RBulk ''DEAD'')))))
      in if deadUntil > 0 then call_do (ZADD listing_next deadUntil url) bury else bury)"

definition luaFail ::
  "key \<Rightarrow> key \<Rightarrow> key \<Rightarrow> key \<Rightarrow> key \<Rightarrow> key \<Rightarrow> key \<Rightarrow> key \<Rightarrow>
   string \<Rightarrow> string \<Rightarrow> bool \<Rightarrow> int \<Rightarrow> int \<Rightarrow> string \<Rightarrow> int \<Rightarrow> int list \<Rightarrow> script" where
  "luaFail lease processing attempts strikes delayed dead jobseq listing_next
      item url incStrike maxStrikes now reason deadUntil ladder =
     (let delay = fail_delay processing delayed jobseq item url now deadUntil ladder;
          bury = fail_bury processing dead attempts strikes listing_next item url reason deadUntil
      in call_int (ZREM lease item) (\<lambda>z. if z = 0 then STALE else
         call_int (HINCRBY attempts url 1) (\<lambda>tries.
         call_bulk (HGET strikes url) (\<lambda>_. \<comment> \<open>read again below by HINCRBY wherever its value is used\<close>
         if incStrike then
           call_int (HINCRBY strikes url 1) (\<lambda>nstrikes.
             if nstrikes \<ge> maxStrikes then bury else delay tries)
         else delay tries))))"

definition luaTerminal ::
  "key \<Rightarrow> key \<Rightarrow> key \<Rightarrow> key \<Rightarrow> key \<Rightarrow> key \<Rightarrow> string \<Rightarrow> string \<Rightarrow> string \<Rightarrow> int \<Rightarrow> script" where
  "luaTerminal lease processing dead attempts strikes listing_next item url reason until =
     (let bury =
            call_do (HSET dead url (reason @ ''|'' @ dec until)) (
            call_do (LREM processing item) (
            call_do (HDEL attempts url) (
            call_do (HDEL strikes url) OK)))
      in call_int (ZREM lease item) (\<lambda>z. if z = 0 then STALE else
         if until > 0 then call_do (ZADD listing_next until url) bury else bury))"

subsection \<open>Reconciler scripts\<close>

fun promote_loop :: "key \<Rightarrow> key \<Rightarrow> key \<Rightarrow> int \<Rightarrow> string list \<Rightarrow> script" where
  "promote_loop delayed ready jobseq n [] = Return (RInt n)"
| "promote_loop delayed ready jobseq n (item # due) =
     (case after_bar item of
        None \<Rightarrow> LuaError
      | Some url \<Rightarrow>
          call_int (INCR jobseq) (\<lambda>j.
          call_do (LPUSH ready (job_member j url)) (
          call_do (ZREM delayed item) (
          promote_loop delayed ready jobseq n due))))"

definition luaPromote :: "key \<Rightarrow> key \<Rightarrow> key \<Rightarrow> int \<Rightarrow> int \<Rightarrow> script" where
  "luaPromote delayed ready jobseq now limit =
     call_arr (ZRANGEBYSCORE delayed now limit) (\<lambda>due.
       promote_loop delayed ready jobseq (int (length due)) due)"

fun reap_loop :: "key \<Rightarrow> key \<Rightarrow> key \<Rightarrow> key \<Rightarrow> int \<Rightarrow> string list \<Rightarrow> script" where
  "reap_loop lease ready processing jobseq n [] = Return (RInt n)"
| "reap_loop lease ready processing jobseq n (item # expired) =
     call_int (ZREM lease item) (\<lambda>z.
       if z = 1 then
         (case after_bar item of
            None \<Rightarrow> LuaError
          | Some url \<Rightarrow>
              call_int (INCR jobseq) (\<lambda>j.
              call_do (LPUSH ready (job_member j url)) (
              call_do (LREM processing item) (
              reap_loop lease ready processing jobseq (n + 1) expired))))
       else reap_loop lease ready processing jobseq n expired)"

definition luaReap :: "key \<Rightarrow> key \<Rightarrow> key \<Rightarrow> key \<Rightarrow> int \<Rightarrow> int \<Rightarrow> script" where
  "luaReap lease ready processing jobseq now limit =
     call_arr (ZRANGEBYSCORE lease now limit) (\<lambda>expired.
       reap_loop lease ready processing jobseq 0 expired)"

fun sweep_loop :: "key \<Rightarrow> key \<Rightarrow> key \<Rightarrow> key \<Rightarrow> int \<Rightarrow> string list \<Rightarrow> script" where
  "sweep_loop processing lease ready jobseq n [] = Return (RInt n)"
| "sweep_loop processing lease ready jobseq n (item # its) =
     call_bulk (ZSCORE lease item) (\<lambda>sc.
       if sc = None then
         (case after_bar item of
            None \<Rightarrow> LuaError
          | Some url \<Rightarrow>
              call_int (INCR jobseq) (\<lambda>j.
              call_do (LPUSH ready (job_member j url)) (
              call_do (LREM processing item) (
              sweep_loop processing lease ready jobseq (n + 1) its))))
       else sweep_loop processing lease ready jobseq n its)"

definition luaSweep :: "key \<Rightarrow> key \<Rightarrow> key \<Rightarrow> key \<Rightarrow> int \<Rightarrow> script" where
  "luaSweep processing lease ready jobseq limit =
     call_arr (LRANGE processing (- limit) (- 1)) (\<lambda>its.
       sweep_loop processing lease ready jobseq 0 its)"

lemma listing_ttl_le: "listing_ttl baseTTL maxTTL barren \<le> maxTTL"
  by (simp add: listing_ttl_def Let_def)

lemmas lua_defs [script_defs] = luaLease_def luaAdmitVideo_def luaAdmitListing_def
  luaListingScheduler_def luaAck_def luaCompleteListing_def luaNack_def luaFail_def luaTerminal_def
  luaPromote_def luaReap_def luaSweep_def STALE_def OK_def

end
