(* ===== verification/Frontier.thy ===== *)
theory Frontier
  imports Frontier_Scripts
begin

text \<open>
  The Go side of the frontier (\<^verbatim>\<open>internal/storage/frontier.go\<close>): its types, the methods of
  \<^verbatim>\<open>redisFrontier\<close> that run the scripts and decode their replies, and the \<^verbatim>\<open>Frontier\<close> interface as a
  record of operations. Each method takes the instant \<open>now\<close> that its call of \<^verbatim>\<open>f.now()\<close> returns.
\<close>

subsection \<open>Types\<close>

type_synonym AdmitResult = int

definition Suppressed :: AdmitResult where "Suppressed = 0"
definition New :: AdmitResult where "New = 1"
definition DueRevisit :: AdmitResult where "DueRevisit = 2"

datatype FailClass = FailRateLimited | FailStrikeable
datatype Disposition = Delayed | Dead
datatype URLClass = ClassVideo | ClassListing | ClassSeed

type_synonym URLClassifier = "string \<Rightarrow> URLClass"

record Job =
  jobID :: string
  jobURL :: string
  jobClass :: URLClass
  jobMember :: string

datatype gerr =
    ErrStaleLease
  | RedisErr rerr
  | RedisNil                  \<comment> \<open>redis.Nil, go-redis's error for a nil reply\<close>
  | BadReply string           \<comment> \<open>a reply of another type than the method decodes\<close>

record FrontierStats =
  stReady :: int
  stProcessing :: int
  stDelayed :: int
  stListingsScheduled :: int
  stListingsPending :: int
  stDead :: int
  stStrikes :: int

record FrontierConfig =
  LeaseTimeout :: duration
  MaxStrikes :: int
  RateLimitBackoff :: "int list"
  StrikeBackoff :: "int list"
  ListingBaseTTL :: duration
  SeedTTL :: duration
  ListingMaxTTL :: duration
  QuarantineListing :: duration
  SchedulerBatchLimit :: int

definition DefaultFrontierConfig :: FrontierConfig where
  "DefaultFrontierConfig =
     \<lparr>LeaseTimeout = 600 * time_Second, MaxStrikes = 5,
      RateLimitBackoff = [300, 900, 2700], StrikeBackoff = [60, 300, 1500],
      ListingBaseTTL = 72 * time_Hour, SeedTTL = 24 * time_Hour,
      ListingMaxTTL = 21 * 24 * time_Hour, QuarantineListing = 7 * 24 * time_Hour,
      SchedulerBatchLimit = 100\<rparr>"

definition promoteBatchLimit :: int where "promoteBatchLimit = 100"
definition reapBatchLimit :: int where "reapBatchLimit = 100"
definition sweepBatchLimit :: int where "sweepBatchLimit = 100"

record redisFrontier =
  client :: server
  classify :: "URLClassifier option"
  cfg :: FrontierConfig

subsection \<open>Helpers\<close>

definition splitMember :: "string \<Rightarrow> string \<times> string" where
  "splitMember member =
     (case dropWhile (\<lambda>c. c \<noteq> CHR ''|'') member of
        [] \<Rightarrow> (member, '''')
      | _ # url \<Rightarrow> (takeWhile (\<lambda>c. c \<noteq> CHR ''|'') member, url))"

definition unixOrZero :: "time \<Rightarrow> int" where
  "unixOrZero t = (if t = zero_time then 0 else time_Unix t)"

definition quarantineUntil :: "redisFrontier \<Rightarrow> URLClass \<Rightarrow> time \<Rightarrow> int" where
  "quarantineUntil f class now =
     (if class = ClassVideo then 0 else time_Unix (now + QuarantineListing (cfg f)))"

text \<open>go-redis: \<^verbatim>\<open>Int64()\<close> (and \<^verbatim>\<open>Int()\<close>) and \<^verbatim>\<open>Text()\<close> on the outcome of a script.\<close>

fun cmd_Int64 :: "rerr + reply \<Rightarrow> gerr + int" where
  "cmd_Int64 (Inl e) = Inl (RedisErr e)"
| "cmd_Int64 (Inr (RInt n)) = Inr n"
| "cmd_Int64 (Inr (RBulk x)) = (case read_int x of None \<Rightarrow> Inl (BadReply x) | Some n \<Rightarrow> Inr n)"
| "cmd_Int64 (Inr RNil) = Inl RedisNil"
| "cmd_Int64 (Inr (RArr xs)) = Inl (BadReply ''array'')"

fun cmd_Text :: "rerr + reply \<Rightarrow> gerr + string" where
  "cmd_Text (Inl e) = Inl (RedisErr e)"
| "cmd_Text (Inr (RBulk x)) = Inr x"
| "cmd_Text (Inr RNil) = Inl RedisNil"
| "cmd_Text (Inr (RInt n)) = Inl (BadReply ''integer'')"
| "cmd_Text (Inr (RArr xs)) = Inl (BadReply ''array'')"

fun_cases cmd_Int64_value: "cmd_Int64 res = Inr n" and cmd_Text_value: "cmd_Text res = Inr x"

text \<open>The common tail of Ack, Nack, Terminal and CompleteListing: a STALE reply is an error.\<close>

definition stale_check :: "gerr + string \<Rightarrow> gerr + unit" where
  "stale_check res =
     (case res of
        Inl e \<Rightarrow> Inl e
      | Inr x \<Rightarrow> if x = ''STALE'' then Inl ErrStaleLease else Inr ())"

subsection \<open>Admission\<close>

definition fr_AdmitVideo :: "redisFrontier \<Rightarrow> time \<Rightarrow> string \<Rightarrow> db \<Rightarrow> (gerr + AdmitResult) \<times> db" where
  "fr_AdmitVideo f now url s =
     (let (res, s') = client f (luaAdmitVideo keyReady bloomKey keyDead keyJobSeq url (time_Unix now)) s
      in (cmd_Int64 res, s'))"

definition fr_AdmitListing :: "redisFrontier \<Rightarrow> time \<Rightarrow> string \<Rightarrow> db \<Rightarrow> (gerr + AdmitResult) \<times> db" where
  "fr_AdmitListing f now url s =
     (let (res, s') = client f (luaAdmitListing keyReady keyListingNext keyDead keyJobSeq
                                  url (time_Unix now) PendingScore) s
      in (cmd_Int64 res, s'))"

definition fr_SeedListing :: "redisFrontier \<Rightarrow> string \<Rightarrow> db \<Rightarrow> (gerr + unit) \<times> db" where
  "fr_SeedListing f url s =
     (let (res, s') = client f (Call (ZADDNX keyListingNext 0 url) Return) s
      in (case res of Inl e \<Rightarrow> Inl (RedisErr e) | Inr _ \<Rightarrow> Inr (), s'))"

subsection \<open>Lease and completion\<close>

definition fr_Lease :: "redisFrontier \<Rightarrow> time \<Rightarrow> db \<Rightarrow> (gerr + Job option) \<times> db" where
  "fr_Lease f now s =
     (let (res, s') = client f (luaLease keyReady keyProcessing keyLease
                                  (time_Unix now) (go_div (LeaseTimeout (cfg f)) time_Second)) s
      in (case res of
            Inl e \<Rightarrow> Inl (RedisErr e)
          | Inr RNil \<Rightarrow> Inr None
          | Inr (RBulk member) \<Rightarrow>
              (let (jid, url) = splitMember member;
                   class = (case classify f of None \<Rightarrow> ClassListing | Some g \<Rightarrow> g url)
               in Inr (Some \<lparr>jobID = jid, jobURL = url, jobClass = class, jobMember = member\<rparr>))
          | Inr _ \<Rightarrow> Inl (BadReply ''LEASE''), s'))"

definition fr_Ack :: "redisFrontier \<Rightarrow> Job \<Rightarrow> db \<Rightarrow> (gerr + unit) \<times> db" where
  "fr_Ack f j s =
     (let (res, s') = client f (luaAck keyLease keyProcessing keyAttempts keyStrikes
                                  (jobMember j) (jobURL j)) s
      in (stale_check (cmd_Text res), s'))"

definition fr_Nack :: "redisFrontier \<Rightarrow> Job \<Rightarrow> db \<Rightarrow> (gerr + unit) \<times> db" where
  "fr_Nack f j s =
     (let (res, s') = client f (luaNack keyLease keyReady keyProcessing keyJobSeq
                                  (jobMember j) (jobURL j)) s
      in (stale_check (cmd_Text res), s'))"

definition fr_Fail :: "redisFrontier \<Rightarrow> time \<Rightarrow> Job \<Rightarrow> FailClass \<Rightarrow> db \<Rightarrow> (gerr + Disposition) \<times> db" where
  "fr_Fail f now j class s =
     (let (incStrike, ladder, reason) =
            (if class = FailStrikeable then (True, StrikeBackoff (cfg f), ''strikes_exhausted'')
             else (False, RateLimitBackoff (cfg f), ''rate_limited''));
          (res, s') = client f (luaFail keyLease keyProcessing keyAttempts keyStrikes keyDelayed keyDead
                                  keyJobSeq keyListingNext
                                  (jobMember j) (jobURL j) incStrike (MaxStrikes (cfg f)) (time_Unix now)
                                  reason (quarantineUntil f (jobClass j) now) ladder) s
      in (case cmd_Text res of
            Inl e \<Rightarrow> Inl e
          | Inr x \<Rightarrow>
              if x = ''STALE'' then Inl ErrStaleLease
              else if x = ''DEAD'' then Inr Dead
              else if x = ''DELAYED'' then Inr Delayed
              else Inl (BadReply x), s'))"

definition fr_Terminal ::
  "redisFrontier \<Rightarrow> Job \<Rightarrow> string \<Rightarrow> time \<Rightarrow> db \<Rightarrow> (gerr + unit) \<times> db" where
  "fr_Terminal f j reason until s =
     (let (res, s') = client f (luaTerminal keyLease keyProcessing keyDead keyAttempts keyStrikes
                                  keyListingNext (jobMember j) (jobURL j) reason (unixOrZero until)) s
      in (stale_check (cmd_Text res), s'))"

definition fr_CompleteListing ::
  "redisFrontier \<Rightarrow> time \<Rightarrow> Job \<Rightarrow> int \<Rightarrow> db \<Rightarrow> (gerr + unit) \<times> db" where
  "fr_CompleteListing f now j newChildren s =
     (let baseTTL = (if jobClass j = ClassSeed then SeedTTL (cfg f) else ListingBaseTTL (cfg f));
          (res, s') = client f (luaCompleteListing keyLease keyProcessing keyListingNext keyListingBarren
                                  keyDead keyAttempts keyStrikes
                                  (jobMember j) (jobURL j) newChildren (time_Unix now)
                                  (go_div baseTTL time_Second)
                                  (go_div (ListingMaxTTL (cfg f)) time_Second)) s
      in (stale_check (cmd_Text res), s'))"

subsection \<open>Reconciler primitives\<close>

definition fr_Reap :: "redisFrontier \<Rightarrow> time \<Rightarrow> db \<Rightarrow> (gerr + int) \<times> db" where
  "fr_Reap f now s =
     (let (res, s') = client f (luaReap keyLease keyReady keyProcessing keyJobSeq
                                  (time_Unix now) reapBatchLimit) s
      in (cmd_Int64 res, s'))"

definition fr_Sweep :: "redisFrontier \<Rightarrow> db \<Rightarrow> (gerr + int) \<times> db" where
  "fr_Sweep f s =
     (let (res, s') = client f (luaSweep keyProcessing keyLease keyReady keyJobSeq sweepBatchLimit) s
      in (cmd_Int64 res, s'))"

definition fr_Promote :: "redisFrontier \<Rightarrow> time \<Rightarrow> db \<Rightarrow> (gerr + int) \<times> db" where
  "fr_Promote f now s =
     (let (res, s') = client f (luaPromote keyDelayed keyReady keyJobSeq
                                  (time_Unix now) promoteBatchLimit) s
      in (cmd_Int64 res, s'))"

definition fr_RunListingScheduler :: "redisFrontier \<Rightarrow> time \<Rightarrow> db \<Rightarrow> (gerr + int) \<times> db" where
  "fr_RunListingScheduler f now s =
     (let (res, s') = client f (luaListingScheduler keyListingNext keyReady keyJobSeq keyDead
                                  (time_Unix now) (SchedulerBatchLimit (cfg f)) PendingScore) s
      in (cmd_Int64 res, s'))"

subsection \<open>Observability\<close>

text \<open>
  A pipeline sends its commands one after the other (not as a transaction) and reports the first
  error once all of them have been answered.
\<close>

fun pipeline :: "server \<Rightarrow> cmd list \<Rightarrow> db \<Rightarrow> (rerr + reply list) \<times> db" where
  "pipeline ev [] s = (Inr [], s)"
| "pipeline ev (c # cs) s =
     (let (res, s1) = ev (Call c Return) s;
          (rest, s2) = pipeline ev cs s1
      in (case res of
            Inl e \<Rightarrow> Inl e
          | Inr r \<Rightarrow> (case rest of Inl e \<Rightarrow> Inl e | Inr rs \<Rightarrow> Inr (r # rs)), s2))"

definition stats_cmds :: "cmd list" where
  "stats_cmds =
     [LLEN keyReady, LLEN keyProcessing, ZCARD keyDelayed, HLEN keyDead, HLEN keyStrikes,
      ZCOUNT keyListingNext None (PendingScore - 1),
      ZCOUNT keyListingNext (Some PendingScore) PendingScore]"

text \<open>\<^verbatim>\<open>.Val()\<close> of a command whose error has been ruled out: 0 where the reply is no integer.\<close>

fun int_val :: "reply \<Rightarrow> int" where
  "int_val (RInt n) = n"
| "int_val _ = 0"

definition fr_Stats :: "redisFrontier \<Rightarrow> db \<Rightarrow> (gerr + FrontierStats) \<times> db" where
  "fr_Stats f s =
     (let (res, s') = pipeline (client f) stats_cmds s
      in (case res of
            Inl e \<Rightarrow> Inl (RedisErr e)
          | Inr rs \<Rightarrow>
              (case map int_val rs of
                 [ready, processing, delayed, dead, strikes, scheduled, pending] \<Rightarrow>
                   Inr \<lparr>stReady = ready, stProcessing = processing, stDelayed = delayed,
                        stListingsScheduled = scheduled, stListingsPending = pending,
                        stDead = dead, stStrikes = strikes\<rparr>
               | _ \<Rightarrow> Inl (BadReply ''pipeline'')), s'))"

definition fr_Idle :: "redisFrontier \<Rightarrow> db \<Rightarrow> (gerr + bool) \<times> db" where
  "fr_Idle f s =
     (let (res, s') = fr_Stats f s
      in (case res of
            Inl e \<Rightarrow> Inl e
          | Inr st \<Rightarrow> Inr (stReady st = 0 \<and> stProcessing st = 0 \<and> stDelayed st = 0), s'))"

subsection \<open>The interface\<close>

text \<open>
  Go's \<^verbatim>\<open>Frontier\<close> interface: the operations the worker and the reconcilers call, over a state they
  do not look into.
\<close>

record 's Frontier =
  AdmitVideo :: "time \<Rightarrow> string \<Rightarrow> 's \<Rightarrow> (gerr + AdmitResult) \<times> 's"
  AdmitListing :: "time \<Rightarrow> string \<Rightarrow> 's \<Rightarrow> (gerr + AdmitResult) \<times> 's"
  SeedListing :: "string \<Rightarrow> 's \<Rightarrow> (gerr + unit) \<times> 's"
  Lease :: "time \<Rightarrow> 's \<Rightarrow> (gerr + Job option) \<times> 's"
  Ack :: "Job \<Rightarrow> 's \<Rightarrow> (gerr + unit) \<times> 's"
  Nack :: "Job \<Rightarrow> 's \<Rightarrow> (gerr + unit) \<times> 's"
  Fail :: "time \<Rightarrow> Job \<Rightarrow> FailClass \<Rightarrow> 's \<Rightarrow> (gerr + Disposition) \<times> 's"
  Terminal :: "Job \<Rightarrow> string \<Rightarrow> time \<Rightarrow> 's \<Rightarrow> (gerr + unit) \<times> 's"
  CompleteListing :: "time \<Rightarrow> Job \<Rightarrow> int \<Rightarrow> 's \<Rightarrow> (gerr + unit) \<times> 's"
  Reap :: "time \<Rightarrow> 's \<Rightarrow> (gerr + int) \<times> 's"
  Sweep :: "'s \<Rightarrow> (gerr + int) \<times> 's"
  Promote :: "time \<Rightarrow> 's \<Rightarrow> (gerr + int) \<times> 's"
  RunListingScheduler :: "time \<Rightarrow> 's \<Rightarrow> (gerr + int) \<times> 's"
  Idle :: "'s \<Rightarrow> (gerr + bool) \<times> 's"
  Stats :: "'s \<Rightarrow> (gerr + FrontierStats) \<times> 's"

definition NewFrontier :: "server \<Rightarrow> FrontierConfig \<Rightarrow> URLClassifier option \<Rightarrow> db Frontier" where
  "NewFrontier ev c cl =
     (let f = \<lparr>client = ev, classify = cl, cfg = c\<rparr>
      in \<lparr>AdmitVideo = fr_AdmitVideo f, AdmitListing = fr_AdmitListing f, SeedListing = fr_SeedListing f,
          Lease = fr_Lease f, Ack = fr_Ack f, Nack = fr_Nack f, Fail = fr_Fail f,
          Terminal = fr_Terminal f, CompleteListing = fr_CompleteListing f,
          Reap = fr_Reap f, Sweep = fr_Sweep f, Promote = fr_Promote f,
          RunListingScheduler = fr_RunListingScheduler f, Idle = fr_Idle f, Stats = fr_Stats f\<rparr>)"

lemma splitMember_job_member [simp]: "splitMember (job_member n url) = (dec n, url)"
proof -
  have "dropWhile (\<lambda>c. c \<noteq> CHR ''|'') (dec n @ CHR ''|'' # url) = CHR ''|'' # url"
    "takeWhile (\<lambda>c. c \<noteq> CHR ''|'') (dec n @ CHR ''|'' # url) = dec n"
    using bar_not_in_dec [of n] by (subst dropWhile_append2 takeWhile_append2; auto)+
  then show ?thesis by (simp add: splitMember_def job_member_def)
qed

end
