(* ===== verification/Frontier_Invariant.thy ===== *)
theory Frontier_Invariant
  imports Frontier
begin

text \<open>
  What every frontier script keeps true, wherever it stops. Members of ready, processing and delayed
  carry distinct job numbers already drawn from the counter, only processing members hold a lease
  (\<open>fence\<close>); and no work is owed to a URL that has no job left (\<open>covered\<close>): a listing marked PENDING has
  a live job, and a video admitted as New is live, dead for good, or was acknowledged.
\<close>

subsection \<open>Fencing\<close>

definition minted :: "int \<Rightarrow> string \<Rightarrow> bool" where
  "minted q m \<longleftrightarrow> (\<exists>n u. m = job_member n u \<and> 1 \<le> n \<and> n \<le> q)"

definition fence :: "int \<Rightarrow> string list \<Rightarrow> string list \<Rightarrow> zset \<Rightarrow> zset \<Rightarrow> bool" where
  "fence q R P D L \<longleftrightarrow>
     0 \<le> q \<and> (\<forall>m \<in> set R \<union> set P \<union> zmembers D. minted q m) \<and>
     distinct R \<and> distinct P \<and> zset_ok D \<and> zset_ok L \<and>
     set R \<inter> set P = {} \<and> set R \<inter> zmembers D = {} \<and> set P \<inter> zmembers D = {} \<and>
     zmembers L \<subseteq> set P"

lemma minted_mono: "minted q m \<Longrightarrow> q \<le> q' \<Longrightarrow> minted q' m"
  by (force simp: minted_def)

lemma minted_new: "0 \<le> q \<Longrightarrow> minted (q + 1) (job_member (q + 1) u)"
  by (force simp: minted_def)

lemma not_minted_new: "\<not> minted q (job_member (q + 1) u)"
  by (auto simp: minted_def)

lemma fence_seq: "fence q R P D L \<Longrightarrow> 0 \<le> q"
  by (simp add: fence_def)

lemma fence_incr: "fence q R P D L \<Longrightarrow> fence (q + 1) R P D L"
  by (auto simp: fence_def intro: minted_mono)

lemma fence_fresh:
  assumes "fence q R P D L"
  shows "job_member (q + 1) u \<notin> set R" "job_member (q + 1) u \<notin> set P"
    "job_member (q + 1) u \<notin> zmembers D" "job_member (q + 1) u \<notin> zmembers L"
  using assms not_minted_new [of q u] by (auto simp: fence_def)

lemma fence_push: "fence q R P D L \<Longrightarrow> fence (q + 1) (job_member (q + 1) u # R) P D L"
  using fence_incr [of q R P D L] fence_fresh [of q R P D L u] minted_new [of q u]
  by (auto simp: fence_def)

lemma fence_delay: "fence q R P D L \<Longrightarrow> fence (q + 1) R P (zadd t (job_member (q + 1) u) D) L"
  using fence_incr [of q R P D L] fence_fresh [of q R P D L u] minted_new [of q u]
  by (auto simp: fence_def)

lemma fence_unlease: "fence q R P D L \<Longrightarrow> fence q R P D (zrem m L)"
  by (auto simp: fence_def)

lemma fence_done: "fence q R P D L \<Longrightarrow> m \<notin> zmembers L \<Longrightarrow> fence q R (remove1 m P) D L"
  by (auto simp: fence_def)

lemma fence_undelay: "fence q R P D L \<Longrightarrow> fence q R P (zrem m D) L"
  by (auto simp: fence_def)

lemma fence_lmove: "fence q R P D L \<Longrightarrow> R \<noteq> [] \<Longrightarrow> fence q (butlast R) (last R # P) D L"
  by (cases R rule: rev_cases) (auto simp: fence_def)

lemma fence_lease: "fence q R P D L \<Longrightarrow> m \<in> set P \<Longrightarrow> fence q R P D (zadd t m L)"
  by (auto simp: fence_def)

lemma fence_leased: "fence q R P D L \<Longrightarrow> m \<in> zmembers L \<Longrightarrow> m \<in> set P \<and> m \<notin> set R \<and> m \<notin> zmembers D"
  by (auto simp: fence_def)

lemma fence_member: "fence q R P D L \<Longrightarrow> m \<in> set R \<union> set P \<union> zmembers D \<Longrightarrow> \<exists>n u. m = job_member n u \<and> n \<le> q"
  unfolding fence_def minted_def by metis

subsection \<open>Live jobs and owed work\<close>

definition live :: "string list \<Rightarrow> string list \<Rightarrow> zset \<Rightarrow> string \<Rightarrow> bool" where
  "live R P D u \<longleftrightarrow> (\<exists>n. job_member n u \<in> set R \<union> set P \<union> zmembers D)"

definition dead_forever :: "hash \<Rightarrow> string \<Rightarrow> bool" where
  "dead_forever H u \<longleftrightarrow> (\<exists>v. map_of H u = Some v \<and> until_of v = Some 0)"

definition owed :: "string set \<Rightarrow> zset \<Rightarrow> hash \<Rightarrow> string \<Rightarrow> bool" where
  "owed A N H u \<longleftrightarrow> zscore N u = Some PendingScore \<or> u \<in> A \<and> \<not> dead_forever H u"

definition covered :: "string set \<Rightarrow> string list \<Rightarrow> string list \<Rightarrow> zset \<Rightarrow> zset \<Rightarrow> hash \<Rightarrow> bool" where
  "covered A R P D N H \<longleftrightarrow> (\<forall>u. owed A N H u \<longrightarrow> live R P D u)"

text \<open>
  Which URLs the two schedules name: listing:next only listings, with \<open>vid\<close> the test for video URLs;
  every value of the dead hash has a deadline before PendingScore, 0 for videos.
\<close>

definition schedules :: "(string \<Rightarrow> bool) \<Rightarrow> string set \<Rightarrow> zset \<Rightarrow> hash \<Rightarrow> bool" where
  "schedules vid A N H \<longleftrightarrow>
     zset_ok N \<and> (\<forall>u \<in> zmembers N. \<not> vid u) \<and> (\<forall>u \<in> A. vid u) \<and>
     (\<forall>u v. map_of H u = Some v \<longrightarrow> (\<exists>t. until_of v = Some t \<and> t < PendingScore \<and> (vid u \<longrightarrow> t = 0)))"

definition frontier_inv :: "(string \<Rightarrow> bool) \<Rightarrow> string set \<Rightarrow> db \<Rightarrow> bool" where
  "frontier_inv vid A s \<longleftrightarrow>
     fence (dints s keyJobSeq) (dlists s keyReady) (dlists s keyProcessing) (dzsets s keyDelayed) (dzsets s keyLease) \<and>
     schedules vid A (dzsets s keyListingNext) (dhashes s keyDead) \<and>
     covered A (dlists s keyReady) (dlists s keyProcessing) (dzsets s keyDelayed)
       (dzsets s keyListingNext) (dhashes s keyDead)"

lemma live_mono: "live R P D u \<Longrightarrow> set R \<union> set P \<union> zmembers D \<subseteq> set R' \<union> set P' \<union> zmembers D' \<Longrightarrow> live R' P' D' u"
  by (auto simp: live_def)

lemma live_push [simp]: "live (job_member n u # R) P D u"
  by (auto simp: live_def)

lemma live_delay [simp]: "live R P (zadd t (job_member n u) D) u"
  by (auto simp: live_def)

lemma covered_moved:
  "covered A R P D N H \<Longrightarrow> set R \<union> set P \<union> zmembers D \<subseteq> set R' \<union> set P' \<union> zmembers D' \<Longrightarrow>
   covered A R' P' D' N H"
  unfolding covered_def by (blast intro: live_mono)

lemma covered_push: "covered A R P D N H \<Longrightarrow> covered A (x # R) P D N H"
  by (erule covered_moved) auto

lemma covered_delay: "covered A R P D N H \<Longrightarrow> covered A R P (zadd t x D) N H"
  by (erule covered_moved) auto

lemma covered_lmove: "covered A R P D N H \<Longrightarrow> R \<noteq> [] \<Longrightarrow> covered A (butlast R) (last R # P) D N H"
  by (erule covered_moved) (cases R rule: rev_cases, auto)

lemma live_remove1:
  "live R P D v \<Longrightarrow> v \<noteq> u \<Longrightarrow> live R (remove1 (job_member n u) P) D v"
  by (auto simp: live_def)

lemma live_zrem:
  "live R P D v \<Longrightarrow> v \<noteq> u \<Longrightarrow> live R P (zrem (job_member n u) D) v"
  by (auto simp: live_def)

lemma covered_done:
  "covered A R P D N H \<Longrightarrow> owed A N H u \<longrightarrow> live R (remove1 (job_member n u) P) D u \<Longrightarrow>
   covered A R (remove1 (job_member n u) P) D N H"
  unfolding covered_def using live_remove1 by metis

lemma covered_undelay:
  "covered A R P D N H \<Longrightarrow> owed A N H u \<longrightarrow> live R P (zrem (job_member n u) D) u \<Longrightarrow>
   covered A R P (zrem (job_member n u) D) N H"
  unfolding covered_def using live_zrem by metis

lemma covered_shrink:
  "covered A R P D N H \<Longrightarrow> (\<And>u. owed A' N' H' u \<Longrightarrow> owed A N H u) \<Longrightarrow> covered A' R P D N' H'"
  by (auto simp: covered_def)

lemma covered_grow:
  "covered A R P D N H \<Longrightarrow> (\<And>v. v \<noteq> u \<Longrightarrow> owed A' N' H' v \<Longrightarrow> owed A N H v) \<Longrightarrow> live R P D u \<Longrightarrow>
   covered A' R P D N' H'"
  unfolding covered_def by metis

text \<open>A job is replaced by a fresh one for the same URL, or its URL is owed nothing.\<close>

lemma covered_requeue:
  "covered A R P D N H \<Longrightarrow> covered A (job_member k u # R) (remove1 (job_member n u) P) D N H"
  by (rule covered_done [OF covered_push]) simp_all

lemma covered_postpone:
  "covered A R P D N H \<Longrightarrow> covered A R (remove1 (job_member n u) P) (zadd t (job_member k u) D) N H"
  by (rule covered_done [OF covered_delay]) simp_all

lemma covered_promote:
  "covered A R P D N H \<Longrightarrow> covered A (job_member k u # R) P (zrem (job_member n u) D) N H"
  by (rule covered_undelay [OF covered_push]) simp_all

lemma covered_resolved:
  "covered A R P D N H \<Longrightarrow> \<not> owed A N H u \<Longrightarrow> covered A R (remove1 (job_member n u) P) D N H"
  by (erule covered_done) simp

lemma owed_zadd [simp]:
  "owed A (zadd sc u N) H v \<longleftrightarrow>
     (if v = u then sc = PendingScore \<or> u \<in> A \<and> \<not> dead_forever H u else owed A N H v)"
  by (simp add: owed_def)

lemma dead_forever_update [simp]:
  "dead_forever (AList.update u v H) w \<longleftrightarrow> (if w = u then until_of v = Some 0 else dead_forever H w)"
  by (simp add: dead_forever_def update_conv')

lemma dead_forever_delete [simp]:
  "dead_forever (AList.delete u H) w \<longleftrightarrow> w \<noteq> u \<and> dead_forever H w"
  by (auto simp: dead_forever_def delete_conv')

lemma covered_reschedule: "covered A R P D N H \<Longrightarrow> sc \<noteq> PendingScore \<Longrightarrow> covered A R P D (zadd sc u N) H"
  by (erule covered_shrink) (auto simp: owed_def split: if_splits)

lemma covered_pending: "covered A R P D N H \<Longrightarrow> live R P D u \<Longrightarrow> covered A R P D (zadd sc u N) H"
  by (erule covered_grow [where u = u]) auto

lemma covered_unschedule: "covered A R P D N H \<Longrightarrow> covered A R P D (zrem u N) H"
  by (erule covered_shrink) (auto simp: owed_def split: if_splits)

lemma covered_bury:
  "covered A R P D N H \<Longrightarrow> u \<notin> A \<or> until_of v = Some 0 \<Longrightarrow> covered A R P D N (AList.update u v H)"
  by (erule covered_shrink) (auto simp: owed_def split: if_splits)

lemma covered_exhume:
  "covered A R P D N H \<Longrightarrow> u \<notin> A \<or> \<not> dead_forever H u \<Longrightarrow> covered A R P D N (AList.delete u H)"
  by (erule covered_shrink) (auto simp: owed_def)

lemma covered_claim: "covered A R P D N H \<Longrightarrow> live R P D u \<Longrightarrow> covered (insert u A) R P D N H"
  by (erule covered_grow [where u = u]) (auto simp: owed_def)

lemma covered_release: "covered A R P D N H \<Longrightarrow> covered (A - B) R P D N H"
  by (erule covered_shrink) (auto simp: owed_def)

lemma schedules_release: "schedules vid A N H \<Longrightarrow> schedules vid (A - B) N H"
  by (auto simp: schedules_def)

lemma schedules_claim: "schedules vid A N H \<Longrightarrow> vid u \<Longrightarrow> schedules vid (insert u A) N H"
  by (auto simp: schedules_def)

lemma schedules_zadd: "schedules vid A N H \<Longrightarrow> \<not> vid u \<Longrightarrow> schedules vid A (zadd sc u N) H"
  by (auto simp: schedules_def)

lemma schedules_zrem: "schedules vid A N H \<Longrightarrow> schedules vid A (zrem u N) H"
  by (auto simp: schedules_def)

lemma schedules_bury:
  "schedules vid A N H \<Longrightarrow> until_of v = Some t \<Longrightarrow> t < PendingScore \<Longrightarrow> vid u \<longrightarrow> t = 0 \<Longrightarrow>
   schedules vid A N (AList.update u v H)"
  by (auto simp: schedules_def update_conv')

lemma schedules_exhume: "schedules vid A N H \<Longrightarrow> schedules vid A N (AList.delete u H)"
  by (auto simp: schedules_def delete_conv')

lemma schedules_dead:
  "schedules vid A N H \<Longrightarrow> map_of H u = Some v \<Longrightarrow>
   \<exists>t. until_of v = Some t \<and> t < PendingScore \<and> (vid u \<longrightarrow> t = 0) \<and> dead_forever H u = (t = 0)"
  by (fastforce simp: schedules_def dead_forever_def)

lemma schedules_not_claimed: "schedules vid A N H \<Longrightarrow> \<not> vid u \<Longrightarrow> u \<notin> A"
  by (auto simp: schedules_def)

lemma schedules_not_pending: "schedules vid A N H \<Longrightarrow> vid u \<Longrightarrow> zscore N u = None"
  by (auto simp: schedules_def)

lemma fence_resolved: "fence q R P D L \<Longrightarrow> fence q R (remove1 m P) D (zrem m L)"
  by (rule fence_done [OF fence_unlease]) simp_all

lemmas inv_rules = fence_incr fence_push fence_delay fence_unlease fence_resolved fence_done fence_undelay
  fence_lmove fence_lease covered_push covered_delay covered_lmove covered_requeue covered_postpone
  covered_promote covered_resolved covered_release schedules_release schedules_claim schedules_zadd
  schedules_zrem schedules_exhume

end
