(* ===== verification/Frontier_Preservation.thy ===== *)
theory Frontier_Preservation
  imports Frontier_Invariant
begin

text \<open>
  Every Lua script keeps the frontier's invariant at each point where it can stop: destination first,
  source after. One lemma per script, over its actual keys.
\<close>

abbreviation holds :: "(string \<Rightarrow> bool) \<Rightarrow> string set \<Rightarrow> script \<Rightarrow> db \<Rightarrow> bool" where
  "holds vid A sc s \<equiv> always (frontier_inv vid A) (\<lambda>_ _. True) sc s"

subsection \<open>Admission and lease\<close>

lemma luaLease_inv:
  "frontier_inv vid A s \<Longrightarrow> holds vid A (luaLease keyReady keyProcessing keyLease now t) s"
  by (auto simp: script_defs store_simps frontier_inv_def Let_def inv_rules)

lemma luaSeed_inv:
  "frontier_inv vid A s \<Longrightarrow> \<not> vid url \<Longrightarrow> holds vid A (Call (ZADDNX keyListingNext 0 url) Return) s"
  by (auto simp: store_simps frontier_inv_def PendingScore_def inv_rules covered_reschedule)

lemma luaAdmitVideo_inv:
  assumes "frontier_inv vid A s" "vid url"
  shows "always (frontier_inv vid A)
    (\<lambda>r t. (\<exists>k. r = RInt k) \<and> (r = RInt 1 \<longrightarrow> frontier_inv vid (insert url A) t))
    (luaAdmitVideo keyReady bloomKey keyDead keyJobSeq url now) s"
  using assms
  by (auto simp: script_defs store_simps bf_add_def frontier_inv_def Let_def inv_rules
      schedules_dead covered_exhume covered_claim split: option.split dest: schedules_dead)

lemma luaAdmitListing_inv:
  assumes "frontier_inv vid A s" "\<not> vid url"
  shows "holds vid A (luaAdmitListing keyReady keyListingNext keyDead keyJobSeq url now PendingScore) s"
  using assms
  by (auto simp: script_defs store_simps frontier_inv_def Let_def inv_rules schedules_not_claimed
      covered_exhume covered_pending split: option.split dest: schedules_dead)

subsection \<open>Resolving a leased job\<close>

lemma luaAck_inv:
  "frontier_inv vid A s \<Longrightarrow> vid url \<Longrightarrow>
   holds vid (A - {url}) (luaAck keyLease keyProcessing keyAttempts keyStrikes (job_member n url) url) s"
  by (auto simp: script_defs store_simps frontier_inv_def Let_def owed_def schedules_not_pending inv_rules)

lemma luaNack_inv:
  "frontier_inv vid A s \<Longrightarrow>
   holds vid A (luaNack keyLease keyReady keyProcessing keyJobSeq (job_member n url) url) s"
  by (auto simp: script_defs store_simps frontier_inv_def Let_def inv_rules)

lemma luaCompleteListing_inv:
  assumes "frontier_inv vid A s" "\<not> vid url" "now + maxTTL < PendingScore"
  shows "holds vid A (luaCompleteListing keyLease keyProcessing keyListingNext keyListingBarren keyDead
           keyAttempts keyStrikes (job_member n url) url children now baseTTL maxTTL) s"
proof -
  have [simp]: "now + listing_ttl baseTTL maxTTL k \<noteq> PendingScore" for k
    using listing_ttl_le [of baseTTL maxTTL k] assms(3) by linarith
  from assms(1,2) show ?thesis
    by (cases "children > 0")
       (auto simp: script_defs store_simps frontier_inv_def Let_def schedules_not_claimed inv_rules
          covered_reschedule covered_exhume split: option.splits)
qed

lemma luaTerminal_inv:
  assumes "frontier_inv vid A s" "CHR ''|'' \<notin> set reason" "deadUntil < PendingScore"
    and "vid url \<longrightarrow> deadUntil = 0" "\<not> vid url \<longrightarrow> 0 < deadUntil"
  shows "holds vid A (luaTerminal keyLease keyProcessing keyDead keyAttempts keyStrikes keyListingNext
            (job_member n url) url reason deadUntil) s"
  using assms
  by (cases "vid url")
     (auto simp: script_defs store_simps frontier_inv_def Let_def schedules_not_claimed inv_rules
       covered_reschedule covered_bury until_of_append [simplified] owed_def
       schedules_not_pending schedules_bury [where t = deadUntil])

lemma fail_delay_inv:
  "frontier_inv vid A s \<Longrightarrow> job_member n url \<notin> zmembers (dzsets s keyLease) \<Longrightarrow>
   holds vid A (fail_delay keyProcessing keyDelayed keyJobSeq (job_member n url) url now deadUntil ladder tries) s"
  by (auto simp: fail_delay_def call_defs store_simps frontier_inv_def Let_def inv_rules split: option.split)

lemma fail_bury_inv:
  "frontier_inv vid A s \<Longrightarrow> job_member n url \<notin> zmembers (dzsets s keyLease) \<Longrightarrow>
   CHR ''|'' \<notin> set reason \<Longrightarrow> deadUntil < PendingScore \<Longrightarrow> vid url \<longrightarrow> deadUntil = 0 \<Longrightarrow>
   \<not> vid url \<longrightarrow> 0 < deadUntil \<Longrightarrow>
   holds vid A (fail_bury keyProcessing keyDead keyAttempts keyStrikes keyListingNext (job_member n url) url
     reason deadUntil) s"
  by (cases "vid url")
     (auto simp: fail_bury_def call_defs store_simps frontier_inv_def Let_def schedules_not_claimed inv_rules
       covered_reschedule covered_bury until_of_append [simplified] owed_def
       schedules_not_pending schedules_bury [where t = deadUntil])

lemma luaFail_inv:
  assumes "frontier_inv vid A s" "CHR ''|'' \<notin> set reason" "deadUntil < PendingScore"
    and "vid url \<longrightarrow> deadUntil = 0" "\<not> vid url \<longrightarrow> 0 < deadUntil"
  shows "holds vid A (luaFail keyLease keyProcessing keyAttempts keyStrikes keyDelayed keyDead keyJobSeq
           keyListingNext (job_member n url) url incStrike maxStrikes now reason deadUntil ladder) s"
proof -
  have hashes: "frontier_inv vid A (s\<lparr>dzsets := (dzsets s)(keyLease := zrem m (dzsets s keyLease)), dhashes := h\<rparr>)"
    if "h keyDead = dhashes s keyDead" for h m
    using assms(1) that by (simp add: frontier_inv_def inv_rules)
  from hashes [of "dhashes s"] have "frontier_inv vid A (s\<lparr>dzsets := (dzsets s)(keyLease := zrem m (dzsets s keyLease))\<rparr>)" for m
    by simp
  with hashes assms show ?thesis
    by (auto simp: luaFail_def call_defs store_simps Let_def STALE_def fail_delay_inv fail_bury_inv
        split: option.splits)
qed

subsection \<open>Reconciler scripts\<close>

lemma promote_loop_inv:
  "frontier_inv vid A s \<Longrightarrow> \<forall>m \<in> set due. \<exists>n u. m = job_member n u \<Longrightarrow>
   holds vid A (promote_loop keyDelayed keyReady keyJobSeq k due) s"
proof (induction due arbitrary: s)
  case (Cons m due)
  then show ?case
    by (auto simp: call_defs store_simps frontier_inv_def inv_rules)
qed simp

lemma reap_loop_inv:
  "frontier_inv vid A s \<Longrightarrow> \<forall>m \<in> set due. \<exists>n u. m = job_member n u \<Longrightarrow>
   holds vid A (reap_loop keyLease keyReady keyProcessing keyJobSeq k due) s"
proof (induction due arbitrary: s k)
  case (Cons m due)
  then show ?case
    by (auto simp: call_defs store_simps frontier_inv_def inv_rules)
qed simp

lemma sweep_loop_inv:
  "frontier_inv vid A s \<Longrightarrow> \<forall>m \<in> set due. \<exists>n u. m = job_member n u \<Longrightarrow>
   holds vid A (sweep_loop keyProcessing keyLease keyReady keyJobSeq k due) s"
proof (induction due arbitrary: s k)
  case (Cons m due)
  then show ?case
    by (auto simp: call_defs store_simps frontier_inv_def inv_rules split: option.splits)
qed simp

lemma scheduler_loop_inv:
  "frontier_inv vid A s \<Longrightarrow> \<forall>u \<in> set due. \<not> vid u \<Longrightarrow>
   holds vid A (scheduler_loop keyListingNext keyReady keyJobSeq keyDead now PendingScore k due) s"
proof (induction due arbitrary: s k)
  case (Cons u due)
  show ?case
  proof (cases "map_of (dhashes s keyDead) u")
    case None
    with Cons show ?thesis
      by (auto simp: call_defs store_simps frontier_inv_def inv_rules Let_def covered_pending)
  next
    case (Some v)
    obtain t where "until_of v = Some t" "t < PendingScore"
      using Cons.prems(1) Some by (auto simp: frontier_inv_def dest!: schedules_dead)
    with Some Cons show ?thesis
      by (auto simp: call_defs store_simps frontier_inv_def inv_rules Let_def covered_pending
        covered_unschedule covered_reschedule covered_exhume schedules_not_claimed)
  qed
qed simp

lemma frontier_inv_members:
  "frontier_inv vid A s \<Longrightarrow> m \<in> set (dlists s keyReady) \<union> set (dlists s keyProcessing) \<union> zmembers (dzsets s keyDelayed) \<Longrightarrow>
   \<exists>n u. m = job_member n u \<and> n \<le> dints s keyJobSeq"
  unfolding frontier_inv_def by (blast dest: fence_member)

lemma set_lrange: "set (lrange a b xs) \<subseteq> set xs"
  by (auto simp: lrange_def Let_def dest: in_set_takeD in_set_dropD)

lemma luaPromote_inv:
  "frontier_inv vid A s \<Longrightarrow> holds vid A (luaPromote keyDelayed keyReady keyJobSeq now limit) s"
  using frontier_inv_members [of vid A s] zrange_members [of now limit "dzsets s keyDelayed"]
  by (auto simp: luaPromote_def call_arr_def store_simps intro!: promote_loop_inv) blast

lemma luaReap_inv:
  "frontier_inv vid A s \<Longrightarrow> holds vid A (luaReap keyLease keyReady keyProcessing keyJobSeq now limit) s"
proof -
  assume inv: "frontier_inv vid A s"
  then have "zmembers (dzsets s keyLease) \<subseteq> set (dlists s keyProcessing)"
    by (simp add: frontier_inv_def fence_def)
  with inv frontier_inv_members [of vid A s] zrange_members [of now limit "dzsets s keyLease"]
  show ?thesis
    by (auto simp: luaReap_def call_arr_def store_simps intro!: reap_loop_inv) blast
qed

lemma luaSweep_inv:
  "frontier_inv vid A s \<Longrightarrow> holds vid A (luaSweep keyProcessing keyLease keyReady keyJobSeq limit) s"
  using frontier_inv_members [of vid A s] set_lrange [of "- limit" "- 1" "dlists s keyProcessing"]
  by (auto simp: luaSweep_def call_arr_def store_simps intro!: sweep_loop_inv) blast

lemma luaListingScheduler_inv:
  "frontier_inv vid A s \<Longrightarrow>
   holds vid A (luaListingScheduler keyListingNext keyReady keyJobSeq keyDead now limit PendingScore) s"
  using zrange_members [of now limit "dzsets s keyListingNext"]
  by (auto simp: luaListingScheduler_def call_arr_def store_simps intro!: scheduler_loop_inv)
     (auto simp: frontier_inv_def schedules_def)

end
