(* ===== verification/Frontier_Contract.thy ===== *)
theory Frontier_Contract
  imports Frontier_Preservation
begin

text \<open>
  The contract of the \<^verbatim>\<open>Frontier\<close> interface as its callers (worker, reconcilers) need it, as a locale
  over an abstract state: which calls keep the invariant, and how a lease and an acknowledgement move
  the set of videos whose work is still owed. The Redis frontier provides it for every server that
  satisfies \<open>redis_server\<close>.
\<close>

subsection \<open>What a caller must respect\<close>

text \<open>
  A job is the one a Lease handed out: its member is its number and URL, its class the classifier's.
  The clock is before the year 9999 by the longest delay, and quarantines end after 1970.
\<close>

definition job_ok :: "URLClassifier \<Rightarrow> Job \<Rightarrow> bool" where
  "job_ok cl j \<longleftrightarrow> (\<exists>n. jobMember j = job_member n (jobURL j) \<and> jobID j = dec n) \<and> jobClass j = cl (jobURL j)"

definition time_ok :: "FrontierConfig \<Rightarrow> time \<Rightarrow> bool" where
  "time_ok c now \<longleftrightarrow>
     0 < time_Unix (now + QuarantineListing c) \<and> time_Unix (now + QuarantineListing c) < PendingScore \<and>
     time_Unix now + go_div (ListingMaxTTL c) time_Second < PendingScore"

definition until_ok :: "URLClass \<Rightarrow> time \<Rightarrow> bool" where
  "until_ok class until \<longleftrightarrow>
     (if class = ClassVideo then unixOrZero until = 0
      else 0 < unixOrZero until \<and> unixOrZero until < PendingScore)"

definition reason_ok :: "string \<Rightarrow> bool" where
  "reason_ok reason \<longleftrightarrow> CHR ''|'' \<notin> set reason"

definition claim :: "string \<Rightarrow> gerr + AdmitResult \<Rightarrow> string set \<Rightarrow> string set" where
  "claim u r A = (if r = Inr New then insert u A else A)"

locale frontier_contract =
  fixes F :: "'s Frontier"
    and cl :: URLClassifier
    and inv :: "string set \<Rightarrow> 's \<Rightarrow> bool"
    and clock :: "time \<Rightarrow> bool"
  assumes AdmitVideo_inv:
      "inv A s \<Longrightarrow> cl u = ClassVideo \<Longrightarrow> AdmitVideo F now u s = (r, s') \<Longrightarrow> inv (claim u r A) s'"
    and AdmitListing_inv:
      "inv A s \<Longrightarrow> cl u \<noteq> ClassVideo \<Longrightarrow> inv A (snd (AdmitListing F now u s))"
    and SeedListing_inv: "inv A s \<Longrightarrow> cl u \<noteq> ClassVideo \<Longrightarrow> inv A (snd (SeedListing F u s))"
    and Lease_inv: "inv A s \<Longrightarrow> inv A (snd (Lease F now s))"
    and Lease_job: "inv A s \<Longrightarrow> Lease F now s = (Inr (Some j), s') \<Longrightarrow> job_ok cl j"
    and Ack_inv:
      "inv A s \<Longrightarrow> job_ok cl j \<Longrightarrow> jobClass j = ClassVideo \<Longrightarrow> inv (A - {jobURL j}) (snd (Ack F j s))"
    and Nack_inv: "inv A s \<Longrightarrow> job_ok cl j \<Longrightarrow> inv A (snd (Nack F j s))"
    and Fail_inv: "inv A s \<Longrightarrow> job_ok cl j \<Longrightarrow> clock now \<Longrightarrow> inv A (snd (Fail F now j fc s))"
    and Terminal_inv:
      "inv A s \<Longrightarrow> job_ok cl j \<Longrightarrow> until_ok (jobClass j) until \<Longrightarrow> reason_ok reason \<Longrightarrow>
       inv A (snd (Terminal F j reason until s))"
    and CompleteListing_inv:
      "inv A s \<Longrightarrow> job_ok cl j \<Longrightarrow> jobClass j \<noteq> ClassVideo \<Longrightarrow> clock now \<Longrightarrow>
       inv A (snd (CompleteListing F now j k s))"
    and Reap_inv: "inv A s \<Longrightarrow> inv A (snd (Reap F now s))"
    and Sweep_inv: "inv A s \<Longrightarrow> inv A (snd (Sweep F s))"
    and Promote_inv: "inv A s \<Longrightarrow> inv A (snd (Promote F now s))"
    and RunListingScheduler_inv: "inv A s \<Longrightarrow> inv A (snd (RunListingScheduler F now s))"
    and Stats_same: "snd (Stats F s) = s"
    and Idle_same: "snd (Idle F s) = s"

subsection \<open>The Redis frontier provides it\<close>

locale redis_frontier = redis_server +
  fixes c :: FrontierConfig and cl :: URLClassifier
begin

lemma run_inv: "holds vid A sc s \<Longrightarrow> frontier_inv vid A (snd (eval sc s))"
  by (rule eval_inv)

lemma admit_video_inv:
  assumes "frontier_inv vid A s" "vid u"
    and "eval (luaAdmitVideo keyReady bloomKey keyDead keyJobSeq u now) s = (res, s')"
  shows "frontier_inv vid (claim u (cmd_Int64 res) A) s'"
proof (cases res)
  case (Inl e)
  then show ?thesis
    using eval_inv [OF luaAdmitVideo_inv [OF assms(1,2), of now]] assms(3) by (simp add: claim_def)
next
  case (Inr r)
  with eval_post [OF luaAdmitVideo_inv [OF assms(1,2), of now]] assms(3)
    eval_inv [OF luaAdmitVideo_inv [OF assms(1,2), of now]]
  show ?thesis by (auto simp: claim_def New_def)
qed

lemma lease_reply:
  assumes "frontier_inv vid A s"
    and "eval (luaLease keyReady keyProcessing keyLease now t) s = (Inr (RBulk m), s')"
  shows "\<exists>n u. m = job_member n u"
proof -
  have "dlists s keyReady \<noteq> [] \<and> m = last (dlists s keyReady)"
    using eval_done [OF assms(2)] by (auto simp: script_defs store_simps Let_def split: if_splits)
  then have "m \<in> set (dlists s keyReady)" by (metis last_in_set)
  with frontier_inv_members [OF assms(1), of m] show ?thesis by auto
qed

end

text \<open>The pipeline of the statistics leaves the database as it is, whatever becomes of its commands.\<close>

context redis_server
begin

lemma pipeline_same:
  "(\<And>c t. c \<in> set cs \<Longrightarrow> always (\<lambda>s. s = t) (\<lambda>_ _. True) (Call c Return) t) \<Longrightarrow> snd (pipeline eval cs s) = s"
proof (induction cs arbitrary: s)
  case (Cons c cs)
  have "snd (eval (Call c Return) s) = s" by (rule eval_inv [OF Cons.prems [of c s]]) simp
  moreover have "snd (pipeline eval cs s) = s"
  proof (rule Cons.IH)
    show "always (\<lambda>s. s = t) (\<lambda>_ _. True) (Call c Return) t" if "c \<in> set cs" for c t
      by (rule Cons.prems) (simp add: that)
  qed
  ultimately show ?case by (simp split: prod.split) auto
qed simp

lemma stats_same: "client f = eval \<Longrightarrow> snd (fr_Stats f s) = s"
proof -
  have "snd (pipeline eval stats_cmds s) = s"
    by (rule pipeline_same) (auto simp: stats_cmds_def store_simps)
  then show "client f = eval \<Longrightarrow> ?thesis" by (simp add: fr_Stats_def split: prod.split)
qed

lemma idle_same: "client f = eval \<Longrightarrow> snd (fr_Idle f s) = s"
  using stats_same [of f s] by (simp add: fr_Idle_def split: prod.split)

end

lemmas frontier_ops = NewFrontier_def fr_AdmitVideo_def fr_AdmitListing_def fr_SeedListing_def
  fr_Lease_def fr_Ack_def fr_Nack_def fr_Fail_def fr_Terminal_def fr_CompleteListing_def fr_Reap_def
  fr_Sweep_def fr_Promote_def fr_RunListingScheduler_def

lemma quarantine_ok:
  "time_ok (cfg f) now \<Longrightarrow> quarantineUntil f class now < PendingScore \<and>
   (class = ClassVideo \<longrightarrow> quarantineUntil f class now = 0) \<and>
   (class \<noteq> ClassVideo \<longrightarrow> 0 < quarantineUntil f class now)"
  by (auto simp: time_ok_def quarantineUntil_def PendingScore_def)

sublocale redis_frontier \<subseteq> frontier_contract
  "NewFrontier eval c (Some cl)" cl "frontier_inv (\<lambda>u. cl u = ClassVideo)" "time_ok c"
proof (unfold_locales, goal_cases)
  case (1 A s u now r s')
  then show ?case
    by (auto simp: frontier_ops Let_def split: prod.splits intro: admit_video_inv)
next
  case (2 A s u now)
  then show ?case
    by (auto simp: frontier_ops Let_def intro: run_inv luaAdmitListing_inv)
next
  case (3 A s u)
  then show ?case
    by (auto simp: frontier_ops Let_def simp del: always.simps intro: run_inv luaSeed_inv)
next
  case (4 A s now)
  then show ?case
    by (auto simp: frontier_ops Let_def intro: run_inv luaLease_inv)
next
  case (5 A s now j s')
  then show ?case
    by (auto simp: frontier_ops Let_def job_ok_def split: prod.splits sum.splits reply.splits dest!: lease_reply)
next
  case (6 A s j)
  then show ?case
    by (auto simp: frontier_ops Let_def job_ok_def intro!: run_inv [OF luaAck_inv])
next
  case (7 A s j)
  then show ?case
    by (auto simp: frontier_ops Let_def job_ok_def intro: run_inv [OF luaNack_inv])
next
  case (8 A s j now fc)
  let ?f = "\<lparr>client = eval, classify = Some cl, cfg = c\<rparr>"
  obtain n where j: "jobMember j = job_member n (jobURL j)" "jobClass j = cl (jobURL j)"
    using 8 by (auto simp: job_ok_def)
  have "holds (\<lambda>u. cl u = ClassVideo) A (luaFail keyLease keyProcessing keyAttempts keyStrikes keyDelayed
      keyDead keyJobSeq keyListingNext (jobMember j) (jobURL j) strike (MaxStrikes c) (time_Unix now)
      reason (quarantineUntil ?f (jobClass j) now) ladder) s"
    if "CHR ''|'' \<notin> set reason" for strike reason ladder
    unfolding j(1)
    by (rule luaFail_inv [OF 8(1) that]) (use 8 quarantine_ok [of ?f now "jobClass j"] j in auto)
  from eval_inv [OF this] show ?case
    by (cases fc) (simp_all add: NewFrontier_def fr_Fail_def Let_def)
next
  case (9 A s j until reason)
  then show ?case
    by (auto simp: frontier_ops Let_def job_ok_def until_ok_def reason_ok_def PendingScore_def
        split: if_splits intro!: run_inv [OF luaTerminal_inv])
next
  case (10 A s j now k)
  then show ?case
    by (auto simp: frontier_ops Let_def job_ok_def time_ok_def intro!: run_inv [OF luaCompleteListing_inv])
next
  case (11 A s now)
  then show ?case
    by (auto simp: frontier_ops Let_def intro: run_inv luaReap_inv)
next
  case (12 A s)
  then show ?case
    by (auto simp: frontier_ops Let_def intro: run_inv luaSweep_inv)
next
  case (13 A s now)
  then show ?case
    by (auto simp: frontier_ops Let_def intro: run_inv luaPromote_inv)
next
  case (14 A s now)
  then show ?case
    by (auto simp: frontier_ops Let_def intro: run_inv luaListingScheduler_inv)
qed (simp_all add: NewFrontier_def Let_def stats_same idle_same)

text \<open>Both servers of the store give an instance, the second with the connection lost midway.\<close>

interpretation ref_frontier: redis_frontier ref_eval DefaultFrontierConfig cl for cl
  by unfold_locales

interpretation crash_frontier: redis_frontier "crash_eval n" DefaultFrontierConfig cl for n cl
  by unfold_locales

end
