(* ===== verification/Frontier_Steps.thy ===== *)
theory Frontier_Steps
  imports Frontier_Contract
begin

text \<open>
  Any interleaving of frontier calls by workers and reconcilers, as a step relation over the frontier's
  state paired with the set of videos claimed so far: those a call of AdmitVideo answered New for, less
  those acknowledged since. Each rule is one call, with the guards its callers respect. Crashed workers
  need no rule: they just make no further call.
\<close>

inductive frontier_step ::
  "'s Frontier \<Rightarrow> URLClassifier \<Rightarrow> (time \<Rightarrow> bool) \<Rightarrow> string set \<times> 's \<Rightarrow> string set \<times> 's \<Rightarrow> bool"
  for F :: "'s Frontier" and cl :: URLClassifier and clock :: "time \<Rightarrow> bool" where
  admit_video: "cl u = ClassVideo \<Longrightarrow> AdmitVideo F now u s = (r, s') \<Longrightarrow>
     frontier_step F cl clock (A, s) (claim u r A, s')"
| admit_listing: "cl u \<noteq> ClassVideo \<Longrightarrow> AdmitListing F now u s = (r, s') \<Longrightarrow>
     frontier_step F cl clock (A, s) (A, s')"
| seed_listing: "cl u \<noteq> ClassVideo \<Longrightarrow> SeedListing F u s = (ru, s') \<Longrightarrow>
     frontier_step F cl clock (A, s) (A, s')"
| lease: "Lease F now s = (rj, s') \<Longrightarrow> frontier_step F cl clock (A, s) (A, s')"
| ack: "job_ok cl j \<Longrightarrow> jobClass j = ClassVideo \<Longrightarrow> Ack F j s = (ru, s') \<Longrightarrow>
     frontier_step F cl clock (A, s) (A - {jobURL j}, s')"
| nack: "job_ok cl j \<Longrightarrow> Nack F j s = (ru, s') \<Longrightarrow> frontier_step F cl clock (A, s) (A, s')"
| fail: "job_ok cl j \<Longrightarrow> clock now \<Longrightarrow> Fail F now j fc s = (rd, s') \<Longrightarrow>
     frontier_step F cl clock (A, s) (A, s')"
| terminal: "job_ok cl j \<Longrightarrow> until_ok (jobClass j) until \<Longrightarrow> reason_ok reason \<Longrightarrow>
     Terminal F j reason until s = (ru, s') \<Longrightarrow> frontier_step F cl clock (A, s) (A, s')"
| complete: "job_ok cl j \<Longrightarrow> jobClass j \<noteq> ClassVideo \<Longrightarrow> clock now \<Longrightarrow>
     CompleteListing F now j k s = (ru, s') \<Longrightarrow> frontier_step F cl clock (A, s) (A, s')"
| reap: "Reap F now s = (ri, s') \<Longrightarrow> frontier_step F cl clock (A, s) (A, s')"
| sweep: "Sweep F s = (ri, s') \<Longrightarrow> frontier_step F cl clock (A, s) (A, s')"
| promote: "Promote F now s = (ri, s') \<Longrightarrow> frontier_step F cl clock (A, s) (A, s')"
| schedule: "RunListingScheduler F now s = (ri, s') \<Longrightarrow> frontier_step F cl clock (A, s) (A, s')"

inductive frontier_steps ::
  "'s Frontier \<Rightarrow> URLClassifier \<Rightarrow> (time \<Rightarrow> bool) \<Rightarrow> string set \<times> 's \<Rightarrow> string set \<times> 's \<Rightarrow> bool"
  for F :: "'s Frontier" and cl :: URLClassifier and clock :: "time \<Rightarrow> bool" where
  steps_refl: "frontier_steps F cl clock p p"
| steps_step: "frontier_steps F cl clock p q \<Longrightarrow> frontier_step F cl clock q r \<Longrightarrow> frontier_steps F cl clock p r"

lemma steps_one: "frontier_step F cl clock p q \<Longrightarrow> frontier_steps F cl clock p q"
  by (rule steps_step [OF steps_refl])

lemma steps_trans:
  "frontier_steps F cl clock q r \<Longrightarrow> frontier_steps F cl clock p q \<Longrightarrow> frontier_steps F cl clock p r"
  by (induction rule: frontier_steps.induct) (auto intro: steps_step)

context frontier_contract
begin

lemma step_inv:
  assumes "frontier_step F cl clock p q" and "inv (fst p) (snd p)"
  shows "inv (fst q) (snd q)"
  using assms(1)
proof (cases rule: frontier_step.cases)
  case (admit_video u now s r s' A)
  then show ?thesis using AdmitVideo_inv [of A s u now r s'] assms(2) by simp
next
  case (admit_listing u now s r s' A)
  then show ?thesis using AdmitListing_inv [of A s u now] assms(2) by simp
next
  case (seed_listing u s ru s' A)
  then show ?thesis using SeedListing_inv [of A s u] assms(2) by simp
next
  case (lease now s rj s' A)
  then show ?thesis using Lease_inv [of A s now] assms(2) by simp
next
  case (ack j s ru s' A)
  then show ?thesis using Ack_inv [of A s j] assms(2) by simp
next
  case (nack j s ru s' A)
  then show ?thesis using Nack_inv [of A s j] assms(2) by simp
next
  case (fail j now fc s rd s' A)
  then show ?thesis using Fail_inv [of A s j now fc] assms(2) by simp
next
  case (terminal j until reason s ru s' A)
  then show ?thesis using Terminal_inv [of A s j until reason] assms(2) by simp
next
  case (complete j now k s ru s' A)
  then show ?thesis using CompleteListing_inv [of A s j now k] assms(2) by simp
next
  case (reap now s ri s' A)
  then show ?thesis using Reap_inv [of A s now] assms(2) by simp
next
  case (sweep s ri s' A)
  then show ?thesis using Sweep_inv [of A s] assms(2) by simp
next
  case (promote now s ri s' A)
  then show ?thesis using Promote_inv [of A s now] assms(2) by simp
next
  case (schedule now s ri s' A)
  then show ?thesis using RunListingScheduler_inv [of A s now] assms(2) by simp
qed

lemma steps_inv:
  "frontier_steps F cl clock p q \<Longrightarrow> inv (fst p) (snd p) \<Longrightarrow> inv (fst q) (snd q)"
  by (induction rule: frontier_steps.induct) (auto dest: step_inv)

end

end
