(* ===== verification/Frontier_Leases.thy ===== *)
theory Frontier_Leases
  imports Frontier_Steps
begin

text \<open>
  Facts every frontier call keeps, whatever its arguments: a job number that has left the ready list
  never comes back to it, a lease that is gone never comes back, and a Bloom filter never forgets an
  item. They are stated of the scripts the frontier issues (\<open>frontier_script\<close>) and lifted to any run.
\<close>

inductive frontier_script :: "script \<Rightarrow> bool" where
  fs_lease: "frontier_script (luaLease keyReady keyProcessing keyLease now t)"
| fs_video: "frontier_script (luaAdmitVideo keyReady bloomKey keyDead keyJobSeq u now)"
| fs_listing: "frontier_script (luaAdmitListing keyReady keyListingNext keyDead keyJobSeq u now p)"
| fs_seed: "frontier_script (Call (ZADDNX keyListingNext sc u) Return)"
| fs_scheduler: "frontier_script (luaListingScheduler keyListingNext keyReady keyJobSeq keyDead now limit p)"
| fs_ack: "frontier_script (luaAck keyLease keyProcessing keyAttempts keyStrikes item u)"
| fs_complete: "frontier_script (luaCompleteListing keyLease keyProcessing keyListingNext keyListingBarren
     keyDead keyAttempts keyStrikes item u k now base mx)"
| fs_nack: "frontier_script (luaNack keyLease keyReady keyProcessing keyJobSeq item u)"
| fs_fail: "frontier_script (luaFail keyLease keyProcessing keyAttempts keyStrikes keyDelayed keyDead
     keyJobSeq keyListingNext item u strike maxs now reason til ladder)"
| fs_terminal: "frontier_script (luaTerminal keyLease keyProcessing keyDead keyAttempts keyStrikes
     keyListingNext item u reason til)"
| fs_reap: "frontier_script (luaReap keyLease keyReady keyProcessing keyJobSeq now limit)"
| fs_sweep: "frontier_script (luaSweep keyProcessing keyLease keyReady keyJobSeq limit)"
| fs_promote: "frontier_script (luaPromote keyDelayed keyReady keyJobSeq now limit)"

definition kept :: "(db \<Rightarrow> bool) \<Rightarrow> bool" where
  "kept J \<longleftrightarrow> (\<forall>sc s. frontier_script sc \<longrightarrow> J s \<longrightarrow> always J (\<lambda>_ _. True) sc s)"

lemma script_ran:
  "snd (ev sc s) = t \<Longrightarrow> frontier_script sc \<Longrightarrow> \<exists>sc. frontier_script sc \<and> t = snd (ev sc s)"
  by blast

lemma step_script:
  assumes "frontier_step (NewFrontier ev c cl) cl' clock p q"
  shows "\<exists>sc. frontier_script sc \<and> snd q = snd (ev sc (snd p))"
  using assms
proof (cases rule: frontier_step.cases)
  case (fail j now fc s rd s' A)
  then have "s' = snd (fr_Fail \<lparr>client = ev, classify = cl, cfg = c\<rparr> now j fc s)"
    by (simp add: NewFrontier_def Let_def)
  then show ?thesis using fail
    by (cases fc) (auto simp: fr_Fail_def Let_def intro: frontier_script.intros)
qed (auto simp: frontier_ops Let_def prod_eq_iff intro: script_ran frontier_script.intros)

context redis_server
begin

lemma kept_step:
  "frontier_step (NewFrontier eval c cl) cl' clock p q \<Longrightarrow> kept J \<Longrightarrow> J (snd p) \<Longrightarrow> J (snd q)"
  using step_script eval_inv unfolding kept_def by metis

lemma kept_steps:
  "frontier_steps (NewFrontier eval c cl) cl' clock p q \<Longrightarrow> kept J \<Longrightarrow> J (snd p) \<Longrightarrow> J (snd q)"
  by (induction rule: frontier_steps.induct) (auto dest: kept_step)

end

subsection \<open>Where a job number may still come\<close>

text \<open>
  Once a job number has been drawn, it enters ready and delayed no more, processing only out of ready, and
  the lease only with it. The flags say which of the four places are left open to it.
\<close>

definition within :: "bool \<Rightarrow> bool \<Rightarrow> bool \<Rightarrow> bool \<Rightarrow> string \<Rightarrow> db \<Rightarrow> bool" where
  "within ra pa la da m s \<longleftrightarrow> minted (dints s keyJobSeq) m \<and> (ra \<or> m \<notin> set (dlists s keyReady)) \<and>
     (ra \<or> pa \<or> m \<notin> set (dlists s keyProcessing)) \<and> (ra \<or> la \<or> m \<notin> zmembers (dzsets s keyLease)) \<and>
     (da \<or> m \<notin> zmembers (dzsets s keyDelayed))"

lemma minted_incr: "minted q m \<Longrightarrow> minted (q + 1) m"
  by (erule minted_mono) simp

lemma minted_neq: "minted q m \<Longrightarrow> m \<noteq> job_member (q + 1) u"
  using not_minted_new by blast

lemma notin_butlast: "x \<notin> set xs \<Longrightarrow> x \<notin> set (butlast xs)"
  by (auto dest: in_set_butlastD)

lemma notin_remove1: "x \<notin> set xs \<Longrightarrow> x \<notin> set (remove1 y xs)"
  by (metis notin_set_remove1)

lemma neq_last: "x \<notin> set xs \<Longrightarrow> xs \<noteq> [] \<Longrightarrow> x \<noteq> last xs"
  by auto

lemmas within_rules = within_def minted_incr minted_neq notin_butlast notin_remove1 neq_last

lemma within_scheduler_loop:
  "within ra pa la da m s \<Longrightarrow> always (within ra pa la da m) (\<lambda>_ _. True)
     (scheduler_loop keyListingNext keyReady keyJobSeq keyDead now p k due) s"
proof (induction due arbitrary: s k)
  case (Cons u due)
  then show ?case
    by (auto simp: call_defs store_simps Let_def within_rules split: option.splits)
qed simp

lemma within_promote_loop:
  "within ra pa la da m s \<Longrightarrow> always (within ra pa la da m) (\<lambda>_ _. True) (promote_loop keyDelayed keyReady keyJobSeq k due) s"
proof (induction due arbitrary: s)
  case (Cons u due)
  then show ?case
    by (auto simp: call_defs store_simps Let_def within_rules split: option.splits)
qed simp

lemma within_reap_loop:
  "within ra pa la da m s \<Longrightarrow> always (within ra pa la da m) (\<lambda>_ _. True)
     (reap_loop keyLease keyReady keyProcessing keyJobSeq k due) s"
proof (induction due arbitrary: s k)
  case (Cons u due)
  then show ?case
    by (auto simp: call_defs store_simps Let_def within_rules split: option.splits)
qed simp

lemma within_sweep_loop:
  "within ra pa la da m s \<Longrightarrow> always (within ra pa la da m) (\<lambda>_ _. True)
     (sweep_loop keyProcessing keyLease keyReady keyJobSeq k due) s"
proof (induction due arbitrary: s k)
  case (Cons u due)
  then show ?case
    by (auto simp: call_defs store_simps Let_def within_rules split: option.splits)
qed simp

lemma within_fail_delay:
  "within ra pa la da m s \<Longrightarrow> always (within ra pa la da m) (\<lambda>_ _. True)
     (fail_delay keyProcessing keyDelayed keyJobSeq item u now til ladder tries) s"
  by (auto simp: fail_delay_def call_defs store_simps Let_def within_rules split: option.splits)

lemma within_fail_bury:
  "within ra pa la da m s \<Longrightarrow> always (within ra pa la da m) (\<lambda>_ _. True)
     (fail_bury keyProcessing keyDead keyAttempts keyStrikes keyListingNext item u reason til) s"
  by (auto simp: fail_bury_def call_defs store_simps Let_def within_rules)

lemma within_fail:
  assumes "within ra pa la da m s"
  shows "always (within ra pa la da m) (\<lambda>_ _. True) (luaFail keyLease keyProcessing keyAttempts keyStrikes
     keyDelayed keyDead keyJobSeq keyListingNext item u strike maxs now reason til ladder) s"
proof -
  have hashes: "within ra pa la da m (s\<lparr>dzsets := (dzsets s)(keyLease := zrem x (dzsets s keyLease)), dhashes := h\<rparr>)"
    for h x
    using assms by (auto simp: within_def)
  from hashes [where h = "dhashes s"] have "within ra pa la da m (s\<lparr>dzsets := (dzsets s)(keyLease := zrem x (dzsets s keyLease))\<rparr>)" for x
    by simp
  with hashes assms show ?thesis
    by (auto simp: luaFail_def call_defs store_simps Let_def STALE_def within_fail_delay within_fail_bury
        split: option.splits)
qed

lemma within_video:
  assumes "within ra pa la da m s"
  shows "always (within ra pa la da m) (\<lambda>_ _. True) (luaAdmitVideo keyReady bloomKey keyDead keyJobSeq u now) s"
proof -
  have "always (within ra pa la da m) (\<lambda>_ _. True)
      (call_int (INCR keyJobSeq) (\<lambda>n. let item = job_member n u in
       call_do (LPUSH keyReady item) (
       call_int (BFADD bloomKey u) (\<lambda>added.
         if added = 0 then call_do (LREM keyReady item) (Return (RInt 0)) else Return (RInt 1))))) t"
    if "within ra pa la da m t" for t
    using that by (auto simp: call_defs store_simps bf_add_def Let_def within_rules)
  with assms show ?thesis
    by (simp add: luaAdmitVideo_def call_bulk_def call_do_def store_simps Let_def split: option.split)
       (simp add: within_def)
qed

lemma within_listing:
  assumes "within ra pa la da m s"
  shows "always (within ra pa la da m) (\<lambda>_ _. True)
     (luaAdmitListing keyReady keyListingNext keyDead keyJobSeq u now p) s"
  using assms
  by (cases "map_of (dhashes s keyDead) u"; cases "zscore (dzsets s keyListingNext) u")
     (simp_all add: luaAdmitListing_def call_defs store_simps Let_def within_rules split: option.split)

lemma kept_within: "kept (within ra pa la da m)"
proof (unfold kept_def, intro allI impI)
  fix sc s
  assume "frontier_script sc" "within ra pa la da m s"
  then show "always (within ra pa la da m) (\<lambda>_ _. True) sc s"
  proof (cases rule: frontier_script.cases)
    case (fs_fail item u strike maxs now reason til ladder)
    with \<open>within ra pa la da m s\<close> show ?thesis by (simp add: within_fail)
  next
    case (fs_scheduler now limit p)
    with \<open>within ra pa la da m s\<close> show ?thesis
      by (simp add: luaListingScheduler_def call_arr_def store_simps within_scheduler_loop)
  next
    case (fs_reap now limit)
    with \<open>within ra pa la da m s\<close> show ?thesis
      by (simp add: luaReap_def call_arr_def store_simps within_reap_loop)
  next
    case (fs_sweep limit)
    with \<open>within ra pa la da m s\<close> show ?thesis
      by (simp add: luaSweep_def call_arr_def store_simps within_sweep_loop)
  next
    case (fs_promote now limit)
    with \<open>within ra pa la da m s\<close> show ?thesis
      by (simp add: luaPromote_def call_arr_def store_simps within_promote_loop)
  next
    case (fs_lease now t)
    with \<open>within ra pa la da m s\<close> show ?thesis
      by (auto simp: script_defs store_simps Let_def within_rules)
  next
    case (fs_video u now)
    with \<open>within ra pa la da m s\<close> show ?thesis by (simp add: within_video)
  next
    case (fs_listing u now pd)
    with \<open>within ra pa la da m s\<close> show ?thesis by (simp add: within_listing)
  qed (use \<open>within ra pa la da m s\<close> in \<open>auto simp: script_defs store_simps Let_def within_rules split: option.split\<close>)
qed

definition retired :: "bool \<Rightarrow> string \<Rightarrow> db \<Rightarrow> bool" where
  "retired b m s \<longleftrightarrow> minted (dints s keyJobSeq) m \<and> m \<notin> set (dlists s keyReady) \<and>
     (b \<longrightarrow> m \<notin> zmembers (dzsets s keyLease))"

lemma kept_retired: "kept (retired b m)"
proof -
  have "retired b m = within False True (\<not> b) True m" by (rule ext) (auto simp: retired_def within_def)
  then show ?thesis by (simp add: kept_within)
qed

subsection \<open>The Bloom filter only grows\<close>

definition bloomed :: "string \<Rightarrow> db \<Rightarrow> bool" where
  "bloomed u s \<longleftrightarrow> u \<in> dbloom s bloomKey"

lemma bloomed_scheduler_loop:
  "bloomed v s \<Longrightarrow> always (bloomed v) (\<lambda>_ _. True)
     (scheduler_loop keyListingNext keyReady keyJobSeq keyDead now p k due) s"
proof (induction due arbitrary: s k)
  case (Cons u due)
  then show ?case
    by (auto simp: call_defs store_simps Let_def bloomed_def split: option.splits)
qed simp

lemma bloomed_promote_loop:
  "bloomed v s \<Longrightarrow> always (bloomed v) (\<lambda>_ _. True) (promote_loop keyDelayed keyReady keyJobSeq k due) s"
proof (induction due arbitrary: s)
  case (Cons u due)
  then show ?case
    by (auto simp: call_defs store_simps bloomed_def split: option.splits)
qed simp

lemma bloomed_reap_loop:
  "bloomed v s \<Longrightarrow> always (bloomed v) (\<lambda>_ _. True) (reap_loop keyLease keyReady keyProcessing keyJobSeq k due) s"
proof (induction due arbitrary: s k)
  case (Cons u due)
  then show ?case
    by (auto simp: call_defs store_simps bloomed_def split: option.splits)
qed simp

lemma bloomed_sweep_loop:
  "bloomed v s \<Longrightarrow> always (bloomed v) (\<lambda>_ _. True) (sweep_loop keyProcessing keyLease keyReady keyJobSeq k due) s"
proof (induction due arbitrary: s k)
  case (Cons u due)
  then show ?case
    by (auto simp: call_defs store_simps bloomed_def split: option.splits)
qed simp

lemma bloomed_fail_delay:
  "bloomed v s \<Longrightarrow> always (bloomed v) (\<lambda>_ _. True)
     (fail_delay keyProcessing keyDelayed keyJobSeq item u now til ladder tries) s"
  by (auto simp: fail_delay_def call_defs store_simps Let_def bloomed_def split: option.splits)

lemma bloomed_fail_bury:
  "bloomed v s \<Longrightarrow> always (bloomed v) (\<lambda>_ _. True)
     (fail_bury keyProcessing keyDead keyAttempts keyStrikes keyListingNext item u reason til) s"
  by (auto simp: fail_bury_def call_defs store_simps Let_def bloomed_def)

lemma bloomed_upd [simp]:
  "bloomed v (s\<lparr>dzsets := z\<rparr>) = bloomed v s" "bloomed v (s\<lparr>dhashes := h\<rparr>) = bloomed v s"
  "bloomed v (s\<lparr>dlists := l\<rparr>) = bloomed v s" "bloomed v (s\<lparr>dints := n\<rparr>) = bloomed v s"
  by (simp_all add: bloomed_def)

lemma bloomed_video:
  assumes "bloomed v s"
  shows "always (bloomed v) (\<lambda>_ _. True) (luaAdmitVideo keyReady bloomKey keyDead keyJobSeq u now) s"
proof -
  have "always (bloomed v) (\<lambda>_ _. True)
      (call_int (INCR keyJobSeq) (\<lambda>n. let item = job_member n u in
       call_do (LPUSH keyReady item) (
       call_int (BFADD bloomKey u) (\<lambda>added.
         if added = 0 then call_do (LREM keyReady item) (Return (RInt 0)) else Return (RInt 1))))) t"
    if "bloomed v t" for t
    using that by (auto simp: call_defs store_simps bf_add_def Let_def bloomed_def)
  with assms show ?thesis
    by (simp add: luaAdmitVideo_def call_bulk_def call_do_def store_simps Let_def split: option.split)
qed

lemma bloomed_listing:
  assumes "bloomed v s"
  shows "always (bloomed v) (\<lambda>_ _. True)
     (luaAdmitListing keyReady keyListingNext keyDead keyJobSeq u now p) s"
  using assms
  by (cases "map_of (dhashes s keyDead) u"; cases "zscore (dzsets s keyListingNext) u")
     (simp_all add: luaAdmitListing_def call_defs store_simps Let_def bloomed_def split: option.split)

lemma kept_bloomed: "kept (bloomed v)"
proof (unfold kept_def, intro allI impI)
  fix sc s
  assume "frontier_script sc" and v: "bloomed v s"
  then show "always (bloomed v) (\<lambda>_ _. True) sc s"
  proof (cases rule: frontier_script.cases)
    case (fs_video u now)
    with v show ?thesis by (simp add: bloomed_video)
  next
    case (fs_fail item u strike maxs now reason til ladder)
    from v show ?thesis unfolding fs_fail
      by (auto simp: luaFail_def call_defs store_simps Let_def STALE_def bloomed_fail_delay bloomed_fail_bury
          split: option.splits)
  next
    case (fs_scheduler now limit p)
    with v show ?thesis
      by (simp add: luaListingScheduler_def call_arr_def store_simps bloomed_scheduler_loop)
  next
    case (fs_reap now limit)
    with v show ?thesis by (simp add: luaReap_def call_arr_def store_simps bloomed_reap_loop)
  next
    case (fs_sweep limit)
    with v show ?thesis by (simp add: luaSweep_def call_arr_def store_simps bloomed_sweep_loop)
  next
    case (fs_promote now limit)
    with v show ?thesis by (simp add: luaPromote_def call_arr_def store_simps bloomed_promote_loop)
  next
    case (fs_lease now t)
    from v show ?thesis unfolding fs_lease
      by (simp add: script_defs store_simps Let_def split: option.split)
  next
    case (fs_listing u now pd)
    with v show ?thesis by (simp add: bloomed_listing)
  next
    case (fs_seed sc u)
    from v show ?thesis unfolding fs_seed
      by (simp add: script_defs store_simps Let_def split: option.split)
  next
    case (fs_ack item u)
    from v show ?thesis unfolding fs_ack
      by (simp add: script_defs store_simps Let_def split: option.split)
  next
    case (fs_complete item u k now base mx)
    from v show ?thesis unfolding fs_complete
      by (simp add: script_defs store_simps Let_def split: option.split)
  next
    case (fs_nack item u)
    from v show ?thesis unfolding fs_nack
      by (simp add: script_defs store_simps Let_def split: option.split)
  next
    case (fs_terminal item u reason til)
    from v show ?thesis unfolding fs_terminal
      by (simp add: script_defs store_simps Let_def split: option.split)
  qed
qed

end
