(* ===== verification/Frontier_Safety.thy ===== *)
theory Frontier_Safety
  imports Frontier_Leases
begin

text \<open>
  The safety properties of the frontier over every interleaving of its calls and every server that
  satisfies \<open>redis_server\<close>: scripts may stop after any command and replies may be lost.
\<close>

abbreviation mk_frontier :: "server \<Rightarrow> FrontierConfig \<Rightarrow> URLClassifier \<Rightarrow> redisFrontier" where
  "mk_frontier ev c cl \<equiv> \<lparr>client = ev, classify = Some cl, cfg = c\<rparr>"

abbreviation runs :: "server \<Rightarrow> FrontierConfig \<Rightarrow> URLClassifier \<Rightarrow> string set \<times> db \<Rightarrow> string set \<times> db \<Rightarrow> bool" where
  "runs ev c cl \<equiv> frontier_steps (NewFrontier ev c (Some cl)) cl (time_ok c)"

definition has_job :: "db \<Rightarrow> string \<Rightarrow> bool" where
  "has_job s u \<longleftrightarrow> live (dlists s keyReady) (dlists s keyProcessing) (dzsets s keyDelayed) u"

lemma frontier_inv_empty [simp]: "frontier_inv vid {} empty_db"
  by (simp add: frontier_inv_def empty_db_def fence_def schedules_def covered_def owed_def)

context redis_frontier
begin

lemma reached_inv:
  "frontier_steps (NewFrontier eval c (Some cl)) cl (time_ok c) ({}, empty_db) (A, s) \<Longrightarrow>
   frontier_inv (\<lambda>u. cl u = ClassVideo) A s"
  using steps_inv by fastforce

end

lemmas runs_inv = redis_frontier.reached_inv [OF redis_frontier.intro]

text \<open>
  C8: no work is lost. In every state that calls of the frontier reach from an empty database, with
  the server allowed to stop scripts midway, each listing marked PENDING has a job in ready, processing
  or delayed, and each video admitted as New and not yet acknowledged has a job or is dead for good.
\<close>

theorem no_lost_work:
  assumes "redis_server ev" and "runs ev c cl ({}, empty_db) (A, s)"
  shows "(\<forall>u. zscore (dzsets s keyListingNext) u = Some PendingScore \<longrightarrow> has_job s u) \<and>
         (\<forall>u \<in> A. has_job s u \<or> dead_forever (dhashes s keyDead) u)"
  using runs_inv [OF assms]
  by (auto simp: frontier_inv_def covered_def owed_def has_job_def)

text \<open>
  C12: job members are exclusive. In every reachable state no member occurs twice in ready, processing
  and delayed, every member has a number already drawn from the counter, and only members of processing
  hold a lease.
\<close>

theorem members_exclusive:
  assumes "redis_server ev" and "runs ev c cl ({}, empty_db) (A, s)"
  shows "distinct (dlists s keyReady @ dlists s keyProcessing @ map snd (dzsets s keyDelayed)) \<and>
         (\<forall>m \<in> set (dlists s keyReady) \<union> set (dlists s keyProcessing) \<union> zmembers (dzsets s keyDelayed).
            \<exists>n u. m = job_member n u \<and> n \<le> dints s keyJobSeq) \<and>
         zmembers (dzsets s keyLease) \<subseteq> set (dlists s keyProcessing)"
  using runs_inv [OF assms] frontier_inv_members [OF runs_inv [OF assms]]
  by (auto simp: frontier_inv_def fence_def zmembers_def zset_ok_def)

subsection \<open>Stale jobs\<close>

text \<open>The scripts that resolve the job with member \<open>m\<close>.\<close>

inductive resolving :: "string \<Rightarrow> script \<Rightarrow> bool" for m where
  "resolving m (luaAck keyLease keyProcessing keyAttempts keyStrikes m u)"
| "resolving m (luaNack keyLease keyReady keyProcessing keyJobSeq m u)"
| "resolving m (luaFail keyLease keyProcessing keyAttempts keyStrikes keyDelayed keyDead keyJobSeq
     keyListingNext m u strike maxs now reason til ladder)"
| "resolving m (luaTerminal keyLease keyProcessing keyDead keyAttempts keyStrikes keyListingNext m u reason til)"
| "resolving m (luaCompleteListing keyLease keyProcessing keyListingNext keyListingBarren keyDead
     keyAttempts keyStrikes m u k now base mx)"

lemmas resolving_defs = luaAck_def luaNack_def luaFail_def luaTerminal_def luaCompleteListing_def

lemma stale_script:
  assumes "m \<notin> zmembers (dzsets s keyLease)" and "resolving m sc"
  shows "always (\<lambda>t. t = s) (\<lambda>r t. r = RBulk ''STALE'') sc s"
proof -
  have "zrem m (dzsets s keyLease) = dzsets s keyLease"
    using assms(1) by (auto simp: zrem_def zmembers_def intro!: filter_True)
  then have "s\<lparr>dzsets := (dzsets s)(keyLease := zrem m (dzsets s keyLease))\<rparr> = s" by simp
  with assms(1) show ?thesis
    by (cases rule: resolving.cases [OF assms(2)])
       (simp_all add: resolving_defs call_int_def store_simps Let_def STALE_def)
qed

text \<open>
  A completion call runs one such script and passes a STALE reply and a server error on as errors.
\<close>

definition stale_error :: "gerr + 'a \<Rightarrow> bool" where
  "stale_error r \<longleftrightarrow> r = Inl ErrStaleLease \<or> (\<exists>e. r = Inl (RedisErr e))"

definition resolve_call :: "redisFrontier \<Rightarrow> string \<Rightarrow> db \<Rightarrow> (gerr + 'a) \<times> db \<Rightarrow> bool" where
  "resolve_call f m s out \<longleftrightarrow>
     (\<exists>sc. resolving m sc \<and> snd out = snd (client f sc s) \<and>
       (fst (client f sc s) = Inr (RBulk ''STALE'') \<longrightarrow> stale_error (fst out)) \<and>
       (\<forall>e. fst (client f sc s) = Inl e \<longrightarrow> stale_error (fst out)))"

lemma resolve_callI:
  "resolving m sc \<Longrightarrow> client f sc s = p \<Longrightarrow> snd out = snd p \<Longrightarrow>
   (fst p = Inr (RBulk ''STALE'') \<Longrightarrow> stale_error (fst out)) \<Longrightarrow>
   (\<And>e. fst p = Inl e \<Longrightarrow> stale_error (fst out)) \<Longrightarrow> resolve_call f m s out"
  unfolding resolve_call_def by blast

lemma resolve_Ack: "resolve_call f (jobMember j) s (fr_Ack f j s)"
  by (rule resolve_callI [OF resolving.intros(1) refl]) (auto simp: fr_Ack_def stale_check_def Let_def stale_error_def)

lemma resolve_Nack: "resolve_call f (jobMember j) s (fr_Nack f j s)"
  by (rule resolve_callI [OF resolving.intros(2) refl]) (auto simp: fr_Nack_def stale_check_def Let_def stale_error_def)

lemma resolve_Terminal: "resolve_call f (jobMember j) s (fr_Terminal f j reason til s)"
  by (rule resolve_callI [OF resolving.intros(4) refl]) (auto simp: fr_Terminal_def stale_check_def Let_def stale_error_def)

lemma resolve_CompleteListing: "resolve_call f (jobMember j) s (fr_CompleteListing f now j k s)"
  by (rule resolve_callI [OF resolving.intros(5) refl]) (auto simp: fr_CompleteListing_def stale_check_def Let_def stale_error_def)

lemma resolve_Fail: "resolve_call f (jobMember j) s (fr_Fail f now j fc s)"
  by (cases fc; rule resolve_callI [OF resolving.intros(3) refl])
     (auto simp: fr_Fail_def Let_def stale_error_def)

lemmas resolve_calls = resolve_Ack resolve_Nack resolve_Fail resolve_Terminal resolve_CompleteListing

lemma fail_ends_release:
  "m \<notin> zmembers (dzsets s keyLease) \<Longrightarrow> always (\<lambda>_. True) (\<lambda>r t. m \<notin> zmembers (dzsets t keyLease))
     (fail_delay keyProcessing keyDelayed keyJobSeq m u now til ladder tries) s"
  "m \<notin> zmembers (dzsets s keyLease) \<Longrightarrow> always (\<lambda>_. True) (\<lambda>r t. m \<notin> zmembers (dzsets t keyLease))
     (fail_bury keyProcessing keyDead keyAttempts keyStrikes keyListingNext m u reason til) s"
  by (simp_all add: fail_delay_def fail_bury_def call_defs store_simps Let_def split: option.split)

lemma resolving_releases:
  assumes "resolving m sc"
  shows "always (\<lambda>_. True) (\<lambda>r t. m \<notin> zmembers (dzsets t keyLease)) sc s"
  using assms
proof (cases rule: resolving.cases)
  case (3 u strike maxs now reason til ladder)
  show ?thesis unfolding 3
    by (simp add: luaFail_def call_defs store_simps Let_def STALE_def fail_ends_release split: option.split)
qed (simp_all add: resolving_defs call_defs store_simps Let_def STALE_def OK_def split: option.split)

context redis_server
begin

lemma eval_const:
  assumes "always (\<lambda>t. t = s) (\<lambda>r t. r = r0) sc s"
  shows "(\<exists>e. eval sc s = (Inl e, s)) \<or> eval sc s = (Inr r0, s)"
proof (cases "eval sc s")
  case (Pair res t)
  then show ?thesis
    using eval_inv [OF assms] eval_post [OF assms] by (cases res) auto
qed

lemma stale_call:
  "client f = eval \<Longrightarrow> m \<notin> zmembers (dzsets s keyLease) \<Longrightarrow> resolve_call f m s out \<Longrightarrow>
   snd out = s \<and> stale_error (fst out)"
  unfolding resolve_call_def by (auto dest!: stale_script eval_const)

lemma resolved_call:
  "client f = eval \<Longrightarrow> resolve_call f m s (Inr x, s') \<Longrightarrow> m \<notin> zmembers (dzsets s' keyLease)"
  using eval_post [OF resolving_releases]
  by (auto simp: resolve_call_def stale_error_def) (metis prod.collapse sum.exhaust sum.inject)

end


text \<open>
  C13: a job without a lease is inert. Whatever call tries to resolve it, the database stays exactly as
  it was and the caller gets an error, ErrStaleLease unless the server itself failed.
\<close>

theorem stale_job_inert:
  assumes "redis_server (client f)" and "jobMember j \<notin> zmembers (dzsets s keyLease)"
  shows "snd (fr_Ack f j s) = s \<and> stale_error (fst (fr_Ack f j s)) \<and>
         snd (fr_Nack f j s) = s \<and> stale_error (fst (fr_Nack f j s)) \<and>
         snd (fr_Fail f now j fc s) = s \<and> stale_error (fst (fr_Fail f now j fc s)) \<and>
         snd (fr_Terminal f j reason til s) = s \<and> stale_error (fst (fr_Terminal f j reason til s)) \<and>
         snd (fr_CompleteListing f now j k s) = s \<and> stale_error (fst (fr_CompleteListing f now j k s))"
  using resolve_calls [THEN redis_server.stale_call [OF assms(1) refl assms(2)]] by simp

subsection \<open>At most one resolution, at most one lease\<close>

text \<open>The calls that resolve job \<open>j\<close>: the five completion methods, when they return no error.\<close>

definition resolves :: "redisFrontier \<Rightarrow> Job \<Rightarrow> db \<Rightarrow> db \<Rightarrow> bool" where
  "resolves f j s s' \<longleftrightarrow>
     fr_Ack f j s = (Inr (), s') \<or> fr_Nack f j s = (Inr (), s') \<or>
     (\<exists>now fc d. fr_Fail f now j fc s = (Inr d, s')) \<or>
     (\<exists>reason til. fr_Terminal f j reason til s = (Inr (), s')) \<or>
     (\<exists>now k. fr_CompleteListing f now j k s = (Inr (), s'))"

lemma resolves_lease:
  assumes "redis_server (client f)" and "resolves f j s s'"
  shows "jobMember j \<in> zmembers (dzsets s keyLease)" and "jobMember j \<notin> zmembers (dzsets s' keyLease)"
proof -
  show "jobMember j \<notin> zmembers (dzsets s' keyLease)"
    using assms(2) unfolding resolves_def
    by (metis (no_types) redis_server.resolved_call [OF assms(1) refl] resolve_Ack resolve_Nack
        resolve_Fail resolve_Terminal resolve_CompleteListing)
  show "jobMember j \<in> zmembers (dzsets s keyLease)"
  proof (rule ccontr)
    assume "jobMember j \<notin> zmembers (dzsets s keyLease)"
    from resolve_calls [THEN redis_server.stale_call [OF assms(1) refl this]] assms(2)
    show False
      unfolding resolves_def stale_error_def by (metis fst_conv sum.distinct(2))
  qed
qed

lemma resolving_issued: "resolving m sc \<Longrightarrow> frontier_script sc"
  by (cases rule: resolving.cases, assumption) (auto intro: frontier_script.intros)

lemma resolve_call_kept:
  assumes "redis_server (client f)" "resolve_call f m s out" "kept J" "J s"
  shows "J (snd out)"
  using assms(2-4) redis_server.eval_inv [OF assms(1)]
  unfolding resolve_call_def kept_def by (metis resolving_issued)

lemma resolves_kept:
  assumes "redis_server (client f)" "resolves f j s s'" "kept J" "J s"
  shows "J s'"
  using assms(2) resolve_calls [THEN resolve_call_kept [OF assms(1) _ assms(3,4)]]
  unfolding resolves_def by (metis snd_conv)

text \<open>A member that holds a lease in a reachable state has left the ready list for good.\<close>

lemma leased_retired:
  assumes "frontier_inv vid A s" and "m \<in> zmembers (dzsets s keyLease)"
  shows "retired False m s"
  using assms fence_leased unfolding frontier_inv_def fence_def retired_def by blast

lemma runs_retired:
  "redis_server ev \<Longrightarrow> runs ev c cl (A, s) (B, t) \<Longrightarrow> retired b m s \<Longrightarrow> retired b m t"
  using redis_server.kept_steps [OF _ _ kept_retired] by fastforce

text \<open>
  C9: a job is resolved at most once. After one completion call has succeeded for a job, in no later
  state, whatever workers and reconcilers did meanwhile, does another one succeed for it.
\<close>

theorem resolved_at_most_once:
  assumes "redis_server ev" and "runs ev c cl ({}, empty_db) (A, s)"
    and "resolves (mk_frontier ev c cl) j s s1" and "runs ev c cl (A1, s1) (A2, s2)"
  shows "\<not> resolves (mk_frontier ev c cl) j s2 s3"
proof -
  have server: "redis_server (client (mk_frontier ev c cl))" using assms(1) by simp
  note lease = resolves_lease [OF server assms(3)]
  have "retired False (jobMember j) s1"
    using resolves_kept [OF server assms(3) kept_retired] leased_retired [OF runs_inv [OF assms(1,2)]] lease(1)
    by blast
  then have "retired True (jobMember j) s1"
    using lease(2) by (simp add: retired_def)
  then have "retired True (jobMember j) s2"
    using runs_retired [OF assms(1,4)] by blast
  then show ?thesis
    using resolves_lease(1) [OF server] by (auto simp: retired_def)
qed

lemma lease_pops:
  assumes "redis_server ev" and "fr_Lease (mk_frontier ev c cl) now s = (Inr (Some j), s')"
  shows "dlists s keyReady \<noteq> []" "jobMember j = last (dlists s keyReady)"
    "dlists s' keyReady = butlast (dlists s keyReady)" "dints s' keyJobSeq = dints s keyJobSeq"
    "dlists s' keyProcessing = jobMember j # dlists s keyProcessing"
    "zscore (dzsets s' keyLease) (jobMember j) =
       Some (time_Unix now + go_div (LeaseTimeout c) time_Second)"
proof -
  obtain r where "ev (luaLease keyReady keyProcessing keyLease (time_Unix now)
        (go_div (LeaseTimeout c) time_Second)) s = (Inr r, s')" and r: "r = RBulk (jobMember j)"
    using assms(2)
    by (auto simp: fr_Lease_def Let_def split: prod.splits sum.splits reply.splits)
  from redis_server.eval_done [OF assms(1) this(1)] r
  show "dlists s keyReady \<noteq> []" "jobMember j = last (dlists s keyReady)"
    "dlists s' keyReady = butlast (dlists s keyReady)" "dints s' keyJobSeq = dints s keyJobSeq"
    "dlists s' keyProcessing = jobMember j # dlists s keyProcessing"
    "zscore (dzsets s' keyLease) (jobMember j) =
       Some (time_Unix now + go_div (LeaseTimeout c) time_Second)"
    by (auto simp: script_defs store_simps Let_def split: if_splits)
qed

text \<open>
  C10: a job is leased at most once. A member handed out by Lease is never handed out again, in any
  later state: requeued work always comes back under a new job number.
\<close>

theorem leased_at_most_once:
  assumes "redis_server ev" and "runs ev c cl ({}, empty_db) (A, s)"
    and "fr_Lease (mk_frontier ev c cl) now s = (Inr (Some j), s1)" and "runs ev c cl (A1, s1) (A2, s2)"
    and "fr_Lease (mk_frontier ev c cl) now' s2 = (Inr (Some j'), s3)"
  shows "jobMember j' \<noteq> jobMember j"
proof -
  note pop = lease_pops [OF assms(1,3)]
  have "fence (dints s keyJobSeq) (dlists s keyReady) (dlists s keyProcessing)
      (dzsets s keyDelayed) (dzsets s keyLease)"
    using runs_inv [OF assms(1,2)] by (simp add: frontier_inv_def)
  then have "minted (dints s keyJobSeq) (last (dlists s keyReady))"
    "last (dlists s keyReady) \<notin> set (butlast (dlists s keyReady))"
    using pop(1) by (cases "dlists s keyReady" rule: rev_cases; auto simp: fence_def)+
  with pop have "retired False (jobMember j) s1" by (simp add: retired_def)
  then have "retired False (jobMember j) s2" using runs_retired [OF assms(1,4)] by blast
  then show ?thesis
    using lease_pops(1,2) [OF assms(1,5)] by (metis last_in_set retired_def)
qed

text \<open>
  C23: every job handed out is well typed. In any reachable state, a job that Lease returns has a decimal
  number drawn from the counter, its URL is what follows the bar in its member, whatever characters the
  URL has, its class is the classifier's, and the member is the head of processing and holds a lease.
\<close>

theorem leased_job_typed:
  assumes "redis_server ev" and "runs ev c cl ({}, empty_db) (A, s)"
    and "fr_Lease (mk_frontier ev c cl) now s = (Inr (Some j), s')"
  shows "\<exists>n. 1 \<le> n \<and> n \<le> dints s' keyJobSeq \<and> jobID j = dec n \<and> jobMember j = jobID j @ ''|'' @ jobURL j \<and>
    jobClass j = cl (jobURL j) \<and> hd (dlists s' keyProcessing) = jobMember j \<and>
    jobMember j \<in> zmembers (dzsets s' keyLease)"
proof -
  note pop = lease_pops [OF assms(1,3)]
  have "fence (dints s keyJobSeq) (dlists s keyReady) (dlists s keyProcessing)
      (dzsets s keyDelayed) (dzsets s keyLease)"
    using runs_inv [OF assms(1,2)] by (simp add: frontier_inv_def)
  then have "minted (dints s keyJobSeq) (jobMember j)"
    using pop(1,2) by (cases "dlists s keyReady" rule: rev_cases) (auto simp: fence_def)
  then obtain n u where n: "jobMember j = job_member n u" "1 \<le> n" "n \<le> dints s' keyJobSeq"
    using pop(4) by (auto simp: minted_def)
  have "splitMember (jobMember j) = (jobID j, jobURL j) \<and> jobClass j = cl (jobURL j)"
    using assms(3) by (auto simp: fr_Lease_def Let_def split: prod.splits sum.splits reply.splits)
  with n have "jobID j = dec n" "jobURL j = u" "jobClass j = cl (jobURL j)" by auto
  moreover have "jobMember j \<in> zmembers (dzsets s' keyLease)" by (rule zscore_Some_member [OF pop(6)])
  ultimately show ?thesis using n pop(5) by (auto simp: job_member_def)
qed

subsection \<open>Videos are admitted once\<close>

lemma admit_video_reply:
  assumes "redis_server (client f)" and "fr_AdmitVideo f now u s = (Inr r, s')"
  shows "(r = Suppressed \<and> dlists s' keyReady = dlists s keyReady) \<or> (r = New \<and> bloomed u s')"
    and "bloomed u s \<Longrightarrow> r = Suppressed"
proof -
  obtain q where q: "client f (luaAdmitVideo keyReady bloomKey keyDead keyJobSeq u (time_Unix now)) s = (Inr q, s')"
    "cmd_Int64 (Inr q) = Inr r"
    using assms(2) by (auto simp: fr_AdmitVideo_def Let_def split: prod.splits elim!: cmd_Int64_value)
  note ran = redis_server.eval_done [OF assms(1) q(1)]
  then show "(r = Suppressed \<and> dlists s' keyReady = dlists s keyReady) \<or> (r = New \<and> bloomed u s')"
    using q(2) by (auto simp: luaAdmitVideo_def call_defs store_simps bf_add_def Let_def Suppressed_def New_def
        bloomed_def split: option.splits if_splits)
  show "bloomed u s \<Longrightarrow> r = Suppressed"
    using ran q(2) by (auto simp: luaAdmitVideo_def call_defs store_simps bf_add_def Let_def Suppressed_def
        bloomed_def split: option.splits if_splits)
qed

text \<open>
  C11: a video is admitted as New at most once, and a suppressed admission leaves the queue as it was
  (the job pushed first is rolled back exactly), whatever happened between the two calls.
\<close>

theorem video_admitted_once:
  assumes "redis_server ev" and "fr_AdmitVideo (mk_frontier ev c cl) now u s = (Inr New, s1)"
    and "runs ev c cl (A1, s1) (A2, s2)"
    and "fr_AdmitVideo (mk_frontier ev c cl) now' u s2 = (Inr r, s3)"
  shows "r = Suppressed \<and> dlists s3 keyReady = dlists s2 keyReady"
proof -
  have server: "redis_server (client (mk_frontier ev c cl))" using assms(1) by simp
  have "bloomed u s1"
    using admit_video_reply(1) [OF server assms(2)] by (auto simp: New_def Suppressed_def)
  then have "bloomed u s2"
    using redis_server.kept_steps [OF assms(1,3) kept_bloomed] by simp
  then show ?thesis
    using admit_video_reply [OF server assms(4)] by (auto simp: New_def Suppressed_def)
qed

end
