(* ===== verification/Frontier_Samples.thy ===== *)
theory Frontier_Samples
  imports Frontier_Safety
begin

text \<open>
  A short concrete run of the frontier on the reference server, on which the properties of the frontier
  are exercised: a listing and a video are admitted, both are leased, and the listing's job is given
  back. Every value below is computed by the kernel.
\<close>

definition sample_classifier :: URLClassifier where
  "sample_classifier u = (if u = ''v'' then ClassVideo else ClassListing)"

definition sample :: redisFrontier where
  "sample = mk_frontier ref_eval DefaultFrontierConfig sample_classifier"

definition sample_1 :: db where "sample_1 = snd (fr_AdmitListing sample 0 ''l'' empty_db)"
definition sample_2 :: db where "sample_2 = snd (fr_AdmitVideo sample 0 ''v'' sample_1)"
definition sample_3 :: db where "sample_3 = snd (fr_Lease sample 0 sample_2)"
definition sample_4 :: db where "sample_4 = snd (fr_Lease sample 0 sample_3)"

definition listing_job :: Job where
  "listing_job = \<lparr>jobID = ''1'', jobURL = ''l'', jobClass = ClassListing, jobMember = ''1|l''\<rparr>"

definition video_job :: Job where
  "video_job = \<lparr>jobID = ''2'', jobURL = ''v'', jobClass = ClassVideo, jobMember = ''2|v''\<rparr>"

lemma sample_values:
  "fr_AdmitListing sample 0 ''l'' empty_db = (Inr New, sample_1)"
  "fr_AdmitVideo sample 0 ''v'' sample_1 = (Inr New, sample_2)"
  "fr_Lease sample 0 sample_2 = (Inr (Some listing_job), sample_3)"
  "fr_Lease sample 0 sample_3 = (Inr (Some video_job), sample_4)"
proof -
  have "fst (fr_AdmitListing sample 0 ''l'' empty_db) = Inr New"
    "fst (fr_AdmitVideo sample 0 ''v'' sample_1) = Inr New"
    "fst (fr_Lease sample 0 sample_2) = Inr (Some listing_job)"
    "fst (fr_Lease sample 0 sample_3) = Inr (Some video_job)"
    by code_simp+
  then show "fr_AdmitListing sample 0 ''l'' empty_db = (Inr New, sample_1)"
  "fr_AdmitVideo sample 0 ''v'' sample_1 = (Inr New, sample_2)"
  "fr_Lease sample 0 sample_2 = (Inr (Some listing_job), sample_3)"
  "fr_Lease sample 0 sample_3 = (Inr (Some video_job), sample_4)"
    by (simp_all add: prod_eq_iff sample_1_def sample_2_def sample_3_def sample_4_def)
qed

lemma sample_eq: "mk_frontier ref_eval DefaultFrontierConfig sample_classifier = sample"
  by (simp add: sample_def)

lemma sample_server: "redis_server ref_eval" "redis_reliable ref_eval"
  by unfold_locales

lemma sample_steps:
  "runs ref_eval DefaultFrontierConfig sample_classifier ({}, empty_db) ({}, sample_1)"
  "runs ref_eval DefaultFrontierConfig sample_classifier ({}, sample_1) ({''v''}, sample_2)"
  "runs ref_eval DefaultFrontierConfig sample_classifier ({''v''}, sample_2) ({''v''}, sample_3)"
  "runs ref_eval DefaultFrontierConfig sample_classifier ({''v''}, sample_3) ({''v''}, sample_4)"
proof -
  let ?F = "NewFrontier ref_eval DefaultFrontierConfig (Some sample_classifier)"
  have F: "AdmitListing ?F = fr_AdmitListing sample" "AdmitVideo ?F = fr_AdmitVideo sample"
    "Lease ?F = fr_Lease sample"
    by (simp_all add: NewFrontier_def sample_def Let_def)
  show "runs ref_eval DefaultFrontierConfig sample_classifier ({}, empty_db) ({}, sample_1)"
    by (rule steps_one, rule admit_listing [where u = "''l''" and now = 0])
       (simp_all add: F sample_values sample_classifier_def)
  have "frontier_step ?F sample_classifier (time_ok DefaultFrontierConfig) ({}, sample_1)
      (claim ''v'' (Inr New) {}, sample_2)"
    by (rule admit_video [where u = "''v''" and now = 0])
       (simp_all add: F sample_values sample_classifier_def)
  then show "runs ref_eval DefaultFrontierConfig sample_classifier ({}, sample_1) ({''v''}, sample_2)"
    by (simp add: claim_def steps_one)
  show "runs ref_eval DefaultFrontierConfig sample_classifier ({''v''}, sample_2) ({''v''}, sample_3)"
    by (rule steps_one, rule lease [where now = 0]) (simp add: F sample_values)
  show "runs ref_eval DefaultFrontierConfig sample_classifier ({''v''}, sample_3) ({''v''}, sample_4)"
    by (rule steps_one, rule lease [where now = 0]) (simp add: F sample_values)
qed

lemma sample_reached:
  "runs ref_eval DefaultFrontierConfig sample_classifier ({}, empty_db) ({''v''}, sample_2)"
  "runs ref_eval DefaultFrontierConfig sample_classifier ({}, empty_db) ({''v''}, sample_3)"
  "runs ref_eval DefaultFrontierConfig sample_classifier ({}, empty_db) ({''v''}, sample_4)"
  using sample_steps steps_trans by meson+

theorem no_lost_work_witness:
  "zscore (dzsets sample_4 keyListingNext) ''l'' = Some PendingScore \<and> has_job sample_4 ''l'' \<and>
   (has_job sample_4 ''v'' \<or> dead_forever (dhashes sample_4 keyDead) ''v'')"
proof -
  have "zscore (dzsets sample_4 keyListingNext) ''l'' = Some PendingScore" by code_simp
  with no_lost_work [OF sample_server(1) sample_reached(3)] show ?thesis by blast
qed

theorem members_exclusive_witness:
  "dlists sample_4 keyProcessing = [''2|v'', ''1|l''] \<and> distinct (dlists sample_4 keyProcessing)"
proof -
  have "dlists sample_4 keyProcessing = [''2|v'', ''1|l'']" by code_simp
  with members_exclusive [OF sample_server(1) sample_reached(3)] show ?thesis by simp
qed

theorem stale_job_inert_witness:
  "''1|l'' \<notin> zmembers (dzsets sample_2 keyLease) \<and> snd (fr_Ack sample listing_job sample_2) = sample_2"
proof -
  have "zscore (dzsets sample_2 keyLease) ''1|l'' = None" by code_simp
  then have "jobMember listing_job \<notin> zmembers (dzsets sample_2 keyLease)"
    by (simp add: listing_job_def)
  moreover have "redis_server (client sample)" by (simp add: sample_def sample_server)
  ultimately show ?thesis
    using stale_job_inert [of sample listing_job sample_2] by (simp add: listing_job_def)
qed

theorem resolved_at_most_once_witness:
  "\<exists>s. fr_Nack sample listing_job sample_4 = (Inr (), s) \<and> \<not> (\<exists>s'. resolves sample listing_job s s')"
proof -
  obtain s where s: "fr_Nack sample listing_job sample_4 = (Inr (), s)"
  proof -
    have "fst (fr_Nack sample listing_job sample_4) = Inr ()" by code_simp
    with that show thesis by (metis prod.collapse)
  qed
  then have "resolves (mk_frontier ref_eval DefaultFrontierConfig sample_classifier) listing_job sample_4 s"
    by (simp add: resolves_def sample_eq)
  from resolved_at_most_once [OF sample_server(1) sample_reached(3) this steps_refl]
  show ?thesis using s by (auto simp: sample_eq)
qed

theorem leased_at_most_once_witness:
  "fr_Lease sample 0 sample_2 = (Inr (Some listing_job), sample_3) \<and>
   fr_Lease sample 0 sample_3 = (Inr (Some video_job), sample_4) \<and>
   jobMember video_job \<noteq> jobMember listing_job"
  using leased_at_most_once [OF sample_server(1) sample_reached(1) sample_values(3) [folded sample_eq]
      steps_refl sample_values(4) [folded sample_eq]] sample_values(3,4)
  by simp

theorem leased_job_typed_witness:
  "fr_Lease sample 0 sample_2 = (Inr (Some listing_job), sample_3) \<and>
   (\<exists>n. jobID listing_job = dec n \<and> n \<le> dints sample_3 keyJobSeq) \<and> hd (dlists sample_3 keyProcessing) = jobMember listing_job"
  using leased_job_typed [OF sample_server(1) sample_reached(1) sample_values(3) [folded sample_eq]] sample_values(3)
  by blast

theorem video_admitted_once_witness:
  "\<exists>s. fr_AdmitVideo sample 0 ''v'' sample_4 = (Inr Suppressed, s) \<and> dlists s keyReady = []"
proof -
  obtain r s where s: "fr_AdmitVideo sample 0 ''v'' sample_4 = (Inr r, s)"
  proof -
    have "fst (fr_AdmitVideo sample 0 ''v'' sample_4) = Inr 0" by code_simp
    with that show thesis by (metis prod.collapse)
  qed
  have "runs ref_eval DefaultFrontierConfig sample_classifier ({''v''}, sample_2) ({''v''}, sample_4)"
    using sample_steps(3,4) steps_trans by metis
  from video_admitted_once [OF sample_server(1) sample_values(2) [folded sample_eq] this s [folded sample_eq]]
  have "r = Suppressed \<and> dlists s keyReady = dlists sample_4 keyReady" .
  moreover have "dlists sample_4 keyReady = []" by code_simp
  ultimately show ?thesis using s by simp
qed

end
