(* ===== verification/Frontier_Functional.thy ===== *)
theory Frontier_Functional
  imports Frontier_Safety
begin

text \<open>
  What each frontier call does, on every branch, when the server carries its script out
  (\<open>redis_reliable\<close>): the exact reply and the exact contents of the structures it writes.
\<close>

text \<open>The jobs minted for a list of URLs after counter value \<open>q\<close>, in the order they are pushed.\<close>

fun fresh_jobs :: "int \<Rightarrow> string list \<Rightarrow> string list" where
  "fresh_jobs q [] = []"
| "fresh_jobs q (u # us) = job_member (q + 1) u # fresh_jobs (q + 1) us"

definition url_of :: "string \<Rightarrow> string" where
  "url_of m = snd (splitMember m)"

lemma url_of_job_member [simp]: "url_of (job_member n u) = u"
  by (simp add: url_of_def)

lemma fresh_jobs_members: "m \<in> set (fresh_jobs q us) \<Longrightarrow> \<exists>n u. m = job_member n u \<and> q < n \<and> u \<in> set us"
proof (induction us arbitrary: q)
  case (Cons u us)
  then show ?case by fastforce
qed simp

lemma fresh_jobs_live: "u \<in> set us \<Longrightarrow> \<exists>n. job_member n u \<in> set (fresh_jobs q us)"
  by (induction us arbitrary: q) auto

lemma fresh_jobs_length [simp]: "length (fresh_jobs q us) = length us"
  by (induction us arbitrary: q) auto

definition well_formed :: "string list \<Rightarrow> bool" where
  "well_formed ms \<longleftrightarrow> (\<forall>m \<in> set ms. \<exists>n u. m = job_member n u)"

lemma remove1_filter: "distinct xs \<Longrightarrow> remove1 x xs = filter (\<lambda>y. y \<noteq> x) xs"
  by (simp add: distinct_remove1_removeAll removeAll_filter_not_eq) (metis (full_types))

lemma well_formed_Cons [simp]: "well_formed (m # ms) \<longleftrightarrow> (\<exists>n u. m = job_member n u) \<and> well_formed ms"
  by (auto simp: well_formed_def)

subsection \<open>Loops\<close>

lemma reap_loop_run:
  "well_formed E \<Longrightarrow> distinct E \<Longrightarrow> set E \<subseteq> zmembers (dzsets s keyLease) \<Longrightarrow> distinct (dlists s keyProcessing) \<Longrightarrow>
   \<exists>t. run_det (reap_loop keyLease keyReady keyProcessing keyJobSeq k E) s = Some (RInt (k + int (length E)), t) \<and>
     dints t keyJobSeq = dints s keyJobSeq + int (length E) \<and>
     dlists t keyReady = rev (fresh_jobs (dints s keyJobSeq) (map url_of E)) @ dlists s keyReady \<and>
     dlists t keyProcessing = filter (\<lambda>m. m \<notin> set E) (dlists s keyProcessing) \<and>
     dzsets t keyLease = filter (\<lambda>p. snd p \<notin> set E) (dzsets s keyLease) \<and>
     dzsets t keyDelayed = dzsets s keyDelayed \<and> dzsets t keyListingNext = dzsets s keyListingNext \<and>
     dhashes t = dhashes s \<and> dbloom t = dbloom s"
proof (induction E arbitrary: s k)
  case (Cons m E)
  then obtain n u where m: "m = job_member n u" by auto
  let ?q = "dints s keyJobSeq"
  let ?s = "s\<lparr>dzsets := (dzsets s)(keyLease := zrem m (dzsets s keyLease)),
      dints := (dints s)(keyJobSeq := ?q + 1),
      dlists := (dlists s)(keyReady := job_member (?q + 1) u # dlists s keyReady,
        keyProcessing := remove1 m (dlists s keyProcessing))\<rparr>"
  have step: "run_det (reap_loop keyLease keyReady keyProcessing keyJobSeq k (m # E)) s =
      run_det (reap_loop keyLease keyReady keyProcessing keyJobSeq (k + 1) E) ?s"
    using Cons.prems m by (simp add: call_defs)
  have "distinct (dlists ?s keyProcessing)" "set E \<subseteq> zmembers (dzsets ?s keyLease)"
    using Cons.prems by auto
  with Cons.prems Cons.IH [of ?s "k + 1"] show ?case
    unfolding step
    by (fastforce simp: m remove1_filter zrem_def filter_filter conj_commute)
qed simp

lemma sweep_loop_run:
  "well_formed E \<Longrightarrow> distinct E \<Longrightarrow> distinct (dlists s keyProcessing) \<Longrightarrow>
   let orphans = filter (\<lambda>m. m \<notin> zmembers (dzsets s keyLease)) E in
   \<exists>t. run_det (sweep_loop keyProcessing keyLease keyReady keyJobSeq k E) s = Some (RInt (k + int (length orphans)), t) \<and>
     dints t keyJobSeq = dints s keyJobSeq + int (length orphans) \<and>
     dlists t keyReady = rev (fresh_jobs (dints s keyJobSeq) (map url_of orphans)) @ dlists s keyReady \<and>
     dlists t keyProcessing = filter (\<lambda>m. m \<notin> set orphans) (dlists s keyProcessing) \<and>
     dzsets t = dzsets s \<and> dhashes t = dhashes s \<and> dbloom t = dbloom s"
proof (induction E arbitrary: s k)
  case (Cons m E)
  then obtain n u where m: "m = job_member n u" by auto
  show ?case
  proof (cases "m \<in> zmembers (dzsets s keyLease)")
    case True
    then obtain sc where "zscore (dzsets s keyLease) m = Some sc"
      by (metis zscore_None_iff not_None_eq)
    with True Cons.prems Cons.IH [of s k] show ?thesis
      by (simp add: call_defs Let_def)
  next
    case False
    then have "zscore (dzsets s keyLease) m = None" by simp
    let ?q = "dints s keyJobSeq"
    let ?s = "s\<lparr>dints := (dints s)(keyJobSeq := ?q + 1),
      dlists := (dlists s)(keyReady := job_member (?q + 1) u # dlists s keyReady,
        keyProcessing := remove1 m (dlists s keyProcessing))\<rparr>"
    have step: "run_det (sweep_loop keyProcessing keyLease keyReady keyJobSeq k (m # E)) s =
        run_det (sweep_loop keyProcessing keyLease keyReady keyJobSeq (k + 1) E) ?s"
      using \<open>zscore (dzsets s keyLease) m = None\<close> m by (simp add: call_defs del: zscore_None_iff)
    have "distinct (dlists ?s keyProcessing)" using Cons.prems by auto
    with Cons.prems Cons.IH [of ?s "k + 1"] False show ?thesis
      unfolding step
      by (fastforce simp: Let_def m remove1_filter filter_filter conj_commute)
  qed
qed simp

lemma promote_loop_run:
  "well_formed E \<Longrightarrow> distinct E \<Longrightarrow>
   \<exists>t. run_det (promote_loop keyDelayed keyReady keyJobSeq k E) s = Some (RInt k, t) \<and>
     dints t keyJobSeq = dints s keyJobSeq + int (length E) \<and>
     dlists t keyReady = rev (fresh_jobs (dints s keyJobSeq) (map url_of E)) @ dlists s keyReady \<and>
     dlists t keyProcessing = dlists s keyProcessing \<and>
     dzsets t keyDelayed = filter (\<lambda>p. snd p \<notin> set E) (dzsets s keyDelayed) \<and>
     dzsets t keyLease = dzsets s keyLease \<and> dzsets t keyListingNext = dzsets s keyListingNext \<and>
     dhashes t = dhashes s \<and> dbloom t = dbloom s"
proof (induction E arbitrary: s)
  case (Cons m E)
  then obtain n u where m: "m = job_member n u" by auto
  let ?q = "dints s keyJobSeq"
  let ?s = "s\<lparr>dints := (dints s)(keyJobSeq := ?q + 1),
      dlists := (dlists s)(keyReady := job_member (?q + 1) u # dlists s keyReady),
      dzsets := (dzsets s)(keyDelayed := zrem m (dzsets s keyDelayed))\<rparr>"
  have step: "run_det (promote_loop keyDelayed keyReady keyJobSeq k (m # E)) s =
      run_det (promote_loop keyDelayed keyReady keyJobSeq k E) ?s"
    using m by (simp add: call_defs)
  from Cons.prems Cons.IH [of ?s] show ?case
    unfolding step by (fastforce simp: m zrem_def filter_filter conj_commute)
qed simp

text \<open>What the scheduler does with a due listing, by its entry in the dead hash.\<close>

definition blocked :: "hash \<Rightarrow> int \<Rightarrow> string \<Rightarrow> bool" where
  "blocked dead now u \<longleftrightarrow> (\<exists>v t. map_of dead u = Some v \<and> until_of v = Some t \<and> (t = 0 \<or> t > now))"

definition next_due :: "hash \<Rightarrow> int \<Rightarrow> string \<Rightarrow> int option" where
  "next_due dead now u =
     (case Option.bind (map_of dead u) until_of of
        None \<Rightarrow> Some PendingScore
      | Some t \<Rightarrow> if t = 0 then None else if t > now then Some t else Some PendingScore)"

definition dead_ok :: "hash \<Rightarrow> bool" where
  "dead_ok dead \<longleftrightarrow> (\<forall>u v. map_of dead u = Some v \<longrightarrow> until_of v \<noteq> None)"

definition after_schedule :: "string list \<Rightarrow> int \<Rightarrow> db \<Rightarrow> db \<Rightarrow> bool" where
  "after_schedule due now s t \<longleftrightarrow>
     (let admitted = filter (\<lambda>u. \<not> blocked (dhashes s keyDead) now u) due in
      dints t keyJobSeq = dints s keyJobSeq + int (length admitted) \<and>
      dlists t keyReady = rev (fresh_jobs (dints s keyJobSeq) admitted) @ dlists s keyReady \<and>
      dlists t keyProcessing = dlists s keyProcessing \<and>
      dzsets t keyLease = dzsets s keyLease \<and> dzsets t keyDelayed = dzsets s keyDelayed \<and>
      (\<forall>u. zscore (dzsets t keyListingNext) u =
         (if u \<in> set due then next_due (dhashes s keyDead) now u else zscore (dzsets s keyListingNext) u)) \<and>
      (\<forall>u. map_of (dhashes t keyDead) u =
         (if u \<in> set admitted then None else map_of (dhashes s keyDead) u)) \<and>
      dbloom t = dbloom s)"

text \<open>The two ways the loop treats the head of the page: admitted, or its entry moved or dropped.\<close>

definition schedule_admit :: "string \<Rightarrow> hash \<Rightarrow> db \<Rightarrow> db" where
  "schedule_admit u H s = s\<lparr>dhashes := (dhashes s)(keyDead := H), dints := (dints s)(keyJobSeq := dints s keyJobSeq + 1),
     dlists := (dlists s)(keyReady := job_member (dints s keyJobSeq + 1) u # dlists s keyReady),
     dzsets := (dzsets s)(keyListingNext := zadd PendingScore u (dzsets s keyListingNext))\<rparr>"

definition schedule_move :: "zset \<Rightarrow> db \<Rightarrow> db" where
  "schedule_move N s = s\<lparr>dzsets := (dzsets s)(keyListingNext := N)\<rparr>"

lemma blocked_cong: "map_of H' v = map_of H v \<Longrightarrow> blocked H' now v = blocked H now v"
  by (simp add: blocked_def)

lemma next_due_cong: "map_of H' v = map_of H v \<Longrightarrow> next_due H' now v = next_due H now v"
  by (simp add: next_due_def)

lemma after_schedule_admit:
  assumes "u \<notin> set E" "\<not> blocked (dhashes s keyDead) now u" "next_due (dhashes s keyDead) now u = Some PendingScore"
    and H: "\<And>v. map_of H v = (if v = u then None else map_of (dhashes s keyDead) v)"
    and "after_schedule E now (schedule_admit u H s) t"
  shows "after_schedule (u # E) now s t"
proof -
  have "blocked H now v = blocked (dhashes s keyDead) now v" "next_due H now v = next_due (dhashes s keyDead) now v"
    if "v \<in> set E" for v
    using that assms(1) H by (metis blocked_cong, metis next_due_cong)
  then have "filter (\<lambda>v. \<not> blocked H now v) E = filter (\<lambda>v. \<not> blocked (dhashes s keyDead) now v) E"
    by (intro filter_cong) auto
  with assms \<open>\<And>v. v \<in> set E \<Longrightarrow> next_due H now v = _\<close> show ?thesis
    by (auto simp: after_schedule_def Let_def schedule_admit_def)
qed

lemma after_schedule_move:
  assumes "u \<notin> set E" "blocked (dhashes s keyDead) now u"
    and "\<And>v. zscore N v = (if v = u then next_due (dhashes s keyDead) now u else zscore (dzsets s keyListingNext) v)"
    and "after_schedule E now (schedule_move N s) t"
  shows "after_schedule (u # E) now s t"
  using assms by (auto simp: after_schedule_def Let_def schedule_move_def)

lemma scheduler_loop_run:
  "distinct E \<Longrightarrow> dead_ok (dhashes s keyDead) \<Longrightarrow>
   \<exists>t. run_det (scheduler_loop keyListingNext keyReady keyJobSeq keyDead now PendingScore k E) s =
       Some (RInt (k + int (length (filter (\<lambda>u. \<not> blocked (dhashes s keyDead) now u) E))), t) \<and>
     after_schedule E now s t"
proof (induction E arbitrary: s k)
  case Nil
  then show ?case by (simp add: after_schedule_def)
next
  case (Cons u E)
  let ?H = "dhashes s keyDead" and ?N = "dzsets s keyListingNext"
  let ?loop = "\<lambda>k. scheduler_loop keyListingNext keyReady keyJobSeq keyDead now PendingScore k"
  have admit: ?case
    if "run_det (?loop k (u # E)) s = run_det (?loop (k + 1) E) (schedule_admit u H s)"
      "\<not> blocked ?H now u" "next_due ?H now u = Some PendingScore"
      and H: "\<And>v. map_of H v = (if v = u then None else map_of ?H v)" for H
  proof -
    have "blocked H now v = blocked ?H now v" if "v \<in> set E" for v
      using that Cons.prems H by (metis blocked_cong distinct.simps(2))
    then have eq: "filter (\<lambda>v. \<not> blocked H now v) E = filter (\<lambda>v. \<not> blocked ?H now v) E"
      by (intro filter_cong) auto
    have "dead_ok H" using Cons.prems H by (auto simp: dead_ok_def)
    then obtain t where "run_det (?loop (k + 1) E) (schedule_admit u H s) =
        Some (RInt (k + 1 + int (length (filter (\<lambda>v. \<not> blocked ?H now v) E))), t)"
      "after_schedule E now (schedule_admit u H s) t"
      using Cons.IH [of "schedule_admit u H s" "k + 1"] Cons.prems eq by (auto simp: schedule_admit_def)
    with that after_schedule_admit [OF _ that(2,3) H] Cons.prems show ?thesis
      by (intro exI [of _ t]) (auto simp: algebra_simps simp del: scheduler_loop.simps)
  qed
  have move: ?case
    if "run_det (?loop k (u # E)) s = run_det (?loop k E) (schedule_move N s)" "blocked ?H now u"
      and N: "\<And>v. zscore N v = (if v = u then next_due ?H now u else zscore ?N v)" for N
    using that Cons.IH [of "schedule_move N s" k] Cons.prems after_schedule_move [OF _ that(2) N]
    by (fastforce simp: schedule_move_def simp del: scheduler_loop.simps)
  consider (none) "map_of ?H u = None"
    | (some) v t where "map_of ?H u = Some v" "until_of v = Some t"
    using Cons.prems unfolding dead_ok_def by (metis not_None_eq)
  then show ?case
  proof cases
    case none
    then have "(dhashes s)(keyDead := ?H) = dhashes s" by simp
    with none show ?thesis
      by (intro admit [of ?H])
         (simp_all add: call_defs schedule_admit_def blocked_def next_due_def Let_def)
  next
    case some
    consider (forever) "t = 0" | (later) "t \<noteq> 0" "t > now" | (over) "t \<noteq> 0" "\<not> t > now" by blast
    then show ?thesis
    proof cases
      case forever
      with some show ?thesis
        by (intro move [of "zrem u ?N"])
           (simp_all add: call_defs schedule_move_def blocked_def next_due_def Let_def)
    next
      case later
      with some show ?thesis
        by (intro move [of "zadd t u ?N"])
           (simp_all add: call_defs schedule_move_def blocked_def next_due_def Let_def)
    next
      case over
      with some show ?thesis
        by (intro admit [of "AList.delete u ?H"])
           (simp_all add: call_defs schedule_admit_def blocked_def next_due_def Let_def delete_conv')
    qed
  qed
qed

end
