(* ===== verification/Frontier_Completion.thy ===== *)
theory Frontier_Completion
  imports Frontier_Functional
begin

text \<open>
  The functional properties of the calls that resolve a leased job (Nack, Ack, Fail, CompleteListing,
  Terminal), for a server that carries every script out (\<open>redis_reliable\<close>).
\<close>

subsection \<open>Shared facts\<close>

text \<open>A counter field of a hash, as HINCRBY reads it.\<close>

definition counter :: "hash \<Rightarrow> string \<Rightarrow> int option" where
  "counter H u = (case map_of H u of None \<Rightarrow> Some 0 | Some v \<Rightarrow> read_int v)"

lemma counter_simps [simp]:
  "counter (AList.update u (dec n) H) v = (if v = u then Some n else counter H v)"
  "counter (AList.delete u H) v = (if v = u then Some 0 else counter H v)"
  by (auto simp: counter_def update_conv' delete_conv')

lemma HINCRBY_counter:
  "counter (dhashes s k) u = Some i \<Longrightarrow> cmd_fun (HINCRBY k u n) s =
   Some (RInt (i + n), s\<lparr>dhashes := (dhashes s)(k := AList.update u (dec (i + n)) (dhashes s k))\<rparr>)"
  by (simp add: counter_def)

lemma leased_score: "m \<in> zmembers z \<Longrightarrow> \<exists>sc. zscore z m = Some sc"
  by (metis not_None_eq zscore_None_iff)

lemma inv_facts:
  assumes "frontier_inv vid A s"
  shows "distinct (dlists s keyProcessing)" "distinct (dlists s keyReady)"
    "well_formed (dlists s keyProcessing)" "zset_ok (dzsets s keyLease)" "zset_ok (dzsets s keyDelayed)"
    "zset_ok (dzsets s keyListingNext)" "zmembers (dzsets s keyLease) \<subseteq> set (dlists s keyProcessing)"
    "dead_ok (dhashes s keyDead)"
    "m \<in> zmembers (dzsets s keyDelayed) \<Longrightarrow> \<exists>n u. m = job_member n u"
  using assms frontier_inv_members [OF assms]
  by (auto simp: frontier_inv_def fence_def schedules_def well_formed_def dead_ok_def) blast+

lemma reliable_run:
  "redis_reliable (client f) \<Longrightarrow> run_det sc s = Some (r, t) \<Longrightarrow> client f sc s = (Inr r, t)"
  by (rule redis_reliable.eval_run_det)

subsection \<open>Completion\<close>

text \<open>
  Nack gives a leased job back. The old job leaves processing with its lease, its URL is on the
  ready list under the next job number, and nothing else changes.
\<close>

theorem nack_requeues:
  assumes "redis_reliable (client f)" and "jobMember j \<in> zmembers (dzsets s keyLease)"
  shows "\<exists>s'. fr_Nack f j s = (Inr (), s') \<and>
    dlists s' keyReady = job_member (dints s keyJobSeq + 1) (jobURL j) # dlists s keyReady \<and>
    dlists s' keyProcessing = remove1 (jobMember j) (dlists s keyProcessing) \<and>
    dzsets s' keyLease = zrem (jobMember j) (dzsets s keyLease) \<and>
    dzsets s' keyDelayed = dzsets s keyDelayed \<and> dzsets s' keyListingNext = dzsets s keyListingNext \<and>
    dhashes s' = dhashes s \<and> dbloom s' = dbloom s"
proof -
  obtain sc where sc: "zscore (dzsets s keyLease) (jobMember j) = Some sc"
    using leased_score [OF assms(2)] by blast
  have "run_det (luaNack keyLease keyReady keyProcessing keyJobSeq (jobMember j) (jobURL j)) s =
    Some (RBulk ''OK'', s\<lparr>dzsets := (dzsets s)(keyLease := zrem (jobMember j) (dzsets s keyLease)),
      dints := (dints s)(keyJobSeq := dints s keyJobSeq + 1),
      dlists := (dlists s)(keyReady := job_member (dints s keyJobSeq + 1) (jobURL j) # dlists s keyReady,
        keyProcessing := remove1 (jobMember j) (dlists s keyProcessing))\<rparr>)"
    using sc by (simp add: luaNack_def call_defs OK_def)
  from reliable_run [OF assms(1) this] show ?thesis
    by (simp add: fr_Nack_def stale_check_def)
qed

text \<open>
  Ack finishes a job. The job leaves processing with its lease, the counters of its URL are
  cleared, and no other structure changes: nothing is requeued.
\<close>

theorem ack_finishes:
  assumes "redis_reliable (client f)" and "jobMember j \<in> zmembers (dzsets s keyLease)"
  shows "\<exists>s'. fr_Ack f j s = (Inr (), s') \<and>
    dlists s' keyReady = dlists s keyReady \<and>
    dlists s' keyProcessing = remove1 (jobMember j) (dlists s keyProcessing) \<and>
    dzsets s' keyLease = zrem (jobMember j) (dzsets s keyLease) \<and>
    dzsets s' keyDelayed = dzsets s keyDelayed \<and> dzsets s' keyListingNext = dzsets s keyListingNext \<and>
    counter (dhashes s' keyAttempts) (jobURL j) = Some 0 \<and> counter (dhashes s' keyStrikes) (jobURL j) = Some 0 \<and>
    dhashes s' keyDead = dhashes s keyDead \<and> dints s' = dints s \<and> dbloom s' = dbloom s"
proof -
  obtain sc where sc: "zscore (dzsets s keyLease) (jobMember j) = Some sc"
    using leased_score [OF assms(2)] by blast
  have "\<exists>h. run_det (luaAck keyLease keyProcessing keyAttempts keyStrikes (jobMember j) (jobURL j)) s =
    Some (RBulk ''OK'', s\<lparr>dzsets := (dzsets s)(keyLease := zrem (jobMember j) (dzsets s keyLease)),
      dlists := (dlists s)(keyProcessing := remove1 (jobMember j) (dlists s keyProcessing)),
      dhashes := (dhashes s)(keyAttempts := AList.delete (jobURL j) (dhashes s keyAttempts),
        keyStrikes := AList.delete (jobURL j) (dhashes s keyStrikes))\<rparr>)"
    using sc by (simp add: luaAck_def call_defs OK_def)
  then show ?thesis
    using reliable_run [OF assms(1)] by (auto simp: fr_Ack_def stale_check_def)
qed

subsection \<open>Failure\<close>

text \<open>The backoff after the given number of attempts: the ladder's step, clamped to its last.\<close>

definition backoff_of :: "int list \<Rightarrow> int \<Rightarrow> int" where
  "backoff_of ladder tries = ladder ! (min (nat tries) (length ladder) - 1)"

lemma backoff_arg_of:
  "ladder \<noteq> [] \<Longrightarrow> 1 \<le> tries \<Longrightarrow>
   backoff_arg til ladder (if tries > int (length ladder) then int (length ladder) else tries) =
   Some (backoff_of ladder tries)"
proof -
  assume "ladder \<noteq> []" "1 \<le> tries"
  then have "0 < length ladder" by simp
  with \<open>1 \<le> tries\<close> show ?thesis
    by (auto simp: backoff_arg_def backoff_of_def nat_diff_distrib min_def Suc_leI)
qed

lemma fail_delay_run:
  "ladder \<noteq> [] \<Longrightarrow> 1 \<le> tries \<Longrightarrow>
   run_det (fail_delay keyProcessing keyDelayed keyJobSeq item u now til ladder tries) s =
   Some (RBulk ''DELAYED'', s\<lparr>dints := (dints s)(keyJobSeq := dints s keyJobSeq + 1),
     dzsets := (dzsets s)(keyDelayed := zadd (now + backoff_of ladder tries)
       (job_member (dints s keyJobSeq + 1) u) (dzsets s keyDelayed)),
     dlists := (dlists s)(keyProcessing := remove1 item (dlists s keyProcessing))\<rparr>)"
  using backoff_arg_of [of ladder tries til] by (simp add: fail_delay_def call_defs Let_def)

lemma fail_bury_run:
  "run_det (fail_bury keyProcessing keyDead keyAttempts keyStrikes keyListingNext item u reason til) s =
   Some (RBulk ''DEAD'', s\<lparr>dzsets := (dzsets s)(keyListingNext :=
       if til > 0 then zadd til u (dzsets s keyListingNext) else dzsets s keyListingNext),
     dhashes := (dhashes s)(keyDead := AList.update u (reason @ ''|'' @ dec til) (dhashes s keyDead),
       keyAttempts := AList.delete u (dhashes s keyAttempts), keyStrikes := AList.delete u (dhashes s keyStrikes)),
     dlists := (dlists s)(keyProcessing := remove1 item (dlists s keyProcessing))\<rparr>)"
  by (simp add: fail_bury_def call_defs Let_def)

text \<open>The database at the decision of FAIL: lease released, attempts and strikes counted.\<close>

definition fail_counted :: "string \<Rightarrow> string \<Rightarrow> int \<Rightarrow> int \<Rightarrow> bool \<Rightarrow> db \<Rightarrow> db" where
  "fail_counted m u a k strike s =
     s\<lparr>dzsets := (dzsets s)(keyLease := zrem m (dzsets s keyLease)),
       dhashes := (if strike
         then (dhashes s)(keyAttempts := AList.update u (dec (a + 1)) (dhashes s keyAttempts),
                keyStrikes := AList.update u (dec (k + 1)) (dhashes s keyStrikes))
         else (dhashes s)(keyAttempts := AList.update u (dec (a + 1)) (dhashes s keyAttempts)))\<rparr>"

lemma luaFail_run:
  assumes "m \<in> zmembers (dzsets s keyLease)"
    and "counter (dhashes s keyAttempts) u = Some a" and "counter (dhashes s keyStrikes) u = Some k"
  shows "run_det (luaFail keyLease keyProcessing keyAttempts keyStrikes keyDelayed keyDead keyJobSeq
      keyListingNext m u strike maxs now reason til ladder) s =
    run_det (if strike \<and> maxs \<le> k + 1
        then fail_bury keyProcessing keyDead keyAttempts keyStrikes keyListingNext m u reason til
        else fail_delay keyProcessing keyDelayed keyJobSeq m u now til ladder (a + 1))
      (fail_counted m u a k strike s)"
proof -
  obtain sc where "zscore (dzsets s keyLease) m = Some sc"
    using leased_score [OF assms(1)] by blast
  moreover have "map_of (dhashes s keyStrikes) u = None \<or> (\<exists>v. map_of (dhashes s keyStrikes) u = Some v)"
    by (cases "map_of (dhashes s keyStrikes) u") auto
  ultimately show ?thesis
    using assms(2,3)
    by (auto simp: luaFail_def call_defs Let_def fail_counted_def counter_def split: option.splits)
qed

lemma luaFail_call:
  assumes "redis_reliable (client f)" and "jobMember j \<in> zmembers (dzsets s keyLease)"
    and "counter (dhashes s keyAttempts) (jobURL j) = Some a" and "counter (dhashes s keyStrikes) (jobURL j) = Some k"
    and "run_det (if b \<and> maxs \<le> k + 1
      then fail_bury keyProcessing keyDead keyAttempts keyStrikes keyListingNext (jobMember j) (jobURL j) reason until
      else fail_delay keyProcessing keyDelayed keyJobSeq (jobMember j) (jobURL j) now until bs (a + 1))
      (fail_counted (jobMember j) (jobURL j) a k b s) = Some (r, t)"
  shows "client f (luaFail keyLease keyProcessing keyAttempts keyStrikes keyDelayed keyDead keyJobSeq
      keyListingNext (jobMember j) (jobURL j) b maxs now reason until bs) s = (Inr r, t)"
  using assms(5) unfolding luaFail_run [OF assms(2-4), symmetric] by (rule reliable_run [OF assms(1)])

text \<open>
  C27: the failure policy. A strikeable failure that reaches MaxStrikes buries the URL: the dead hash
  holds the reason and the deadline of the URL's class, listings are scheduled for that deadline, the
  counters are cleared and no job remains. Any other failure puts a fresh job on the delayed set, due
  after the ladder's step for the number of attempts (the last step from then on), counts the attempt,
  and a strike where the failure is strikeable. Either way the failed job is gone.
\<close>

theorem fail_policy:
  fixes f now j fc s
  defines "strike \<equiv> fc = FailStrikeable" and "u \<equiv> jobURL j" and "until \<equiv> quarantineUntil f (jobClass j) now"
    and "ladder \<equiv> if fc = FailStrikeable then StrikeBackoff (cfg f) else RateLimitBackoff (cfg f)"
  assumes "redis_reliable (client f)" and "jobMember j \<in> zmembers (dzsets s keyLease)"
    and "counter (dhashes s keyAttempts) u = Some a" and "0 \<le> a"
    and "counter (dhashes s keyStrikes) u = Some k" and "ladder \<noteq> []"
  shows "\<exists>s'. fr_Fail f now j fc s = (Inr (if strike \<and> MaxStrikes (cfg f) \<le> k + 1 then Dead else Delayed), s') \<and>
    dlists s' keyReady = dlists s keyReady \<and>
    dlists s' keyProcessing = remove1 (jobMember j) (dlists s keyProcessing) \<and>
    dzsets s' keyLease = zrem (jobMember j) (dzsets s keyLease) \<and>
    (if strike \<and> MaxStrikes (cfg f) \<le> k + 1
     then map_of (dhashes s' keyDead) u = Some (''strikes_exhausted'' @ ''|'' @ dec until) \<and>
       zscore (dzsets s' keyListingNext) u = (if until > 0 then Some until else zscore (dzsets s keyListingNext) u) \<and>
       counter (dhashes s' keyAttempts) u = Some 0 \<and> counter (dhashes s' keyStrikes) u = Some 0 \<and>
       dzsets s' keyDelayed = dzsets s keyDelayed
     else dzsets s' keyDelayed = zadd (time_Unix now + backoff_of ladder (a + 1))
         (job_member (dints s keyJobSeq + 1) u) (dzsets s keyDelayed) \<and>
       counter (dhashes s' keyAttempts) u = Some (a + 1) \<and>
       counter (dhashes s' keyStrikes) u = Some (if strike then k + 1 else k) \<and>
       dhashes s' keyDead = dhashes s keyDead \<and> dzsets s' keyListingNext = dzsets s keyListingNext)"
proof -
  note server = luaFail_call [OF assms(5,6) assms(7,9) [unfolded u_def]]
  have delayed: "run_det (fail_delay keyProcessing keyDelayed keyJobSeq (jobMember j) (jobURL j) (time_Unix now) until
      ladder (a + 1)) t = Some (RBulk ''DELAYED'', t\<lparr>dints := (dints t)(keyJobSeq := dints t keyJobSeq + 1),
     dzsets := (dzsets t)(keyDelayed := zadd (time_Unix now + backoff_of ladder (a + 1))
       (job_member (dints t keyJobSeq + 1) u) (dzsets t keyDelayed)),
     dlists := (dlists t)(keyProcessing := remove1 (jobMember j) (dlists t keyProcessing))\<rparr>)" for t
    using fail_delay_run [OF assms(10)] assms(8) by (simp add: u_def)
  show ?thesis
  proof (cases fc)
    case FailRateLimited
    with server [where b = False and reason = "''rate_limited''" and bs = ladder, simplified, OF delayed] assms(9) show ?thesis
      by (simp add: fail_counted_def fr_Fail_def Let_def strike_def u_def until_def ladder_def)
  next
    case FailStrikeable
    show ?thesis
    proof (cases "MaxStrikes (cfg f) \<le> k + 1")
      case True
      then have "client f (luaFail keyLease keyProcessing keyAttempts keyStrikes keyDelayed keyDead keyJobSeq
          keyListingNext (jobMember j) (jobURL j) True (MaxStrikes (cfg f)) (time_Unix now)
          ''strikes_exhausted'' until ladder) s = (Inr r, t)"
        if "run_det (fail_bury keyProcessing keyDead keyAttempts keyStrikes keyListingNext (jobMember j) (jobURL j)
          ''strikes_exhausted'' until) (fail_counted (jobMember j) (jobURL j) a k True s) = Some (r, t)" for r t
        using that by (intro server) simp
      from this [OF fail_bury_run] True FailStrikeable show ?thesis
        by (simp add: fail_counted_def fr_Fail_def Let_def strike_def u_def until_def ladder_def update_conv')
    next
      case False
      then have "client f (luaFail keyLease keyProcessing keyAttempts keyStrikes keyDelayed keyDead keyJobSeq
          keyListingNext (jobMember j) (jobURL j) True (MaxStrikes (cfg f)) (time_Unix now)
          ''strikes_exhausted'' until ladder) s = (Inr r, t)"
        if "run_det (fail_delay keyProcessing keyDelayed keyJobSeq (jobMember j) (jobURL j) (time_Unix now) until
          ladder (a + 1)) (fail_counted (jobMember j) (jobURL j) a k True s) = Some (r, t)" for r t
        using that by (intro server) simp
      from this [OF delayed] False FailStrikeable show ?thesis
        by (simp add: fail_counted_def fr_Fail_def Let_def strike_def u_def until_def ladder_def)
    qed
  qed
qed

lemma cmd_Text_Inr [simp]: "cmd_Text r = Inr x \<longleftrightarrow> r = Inr (RBulk x)"
  by (cases r rule: cmd_Text.cases) auto

lemma cmd_Int64_Inr: "cmd_Int64 r = Inr n \<Longrightarrow> r = Inr (RInt n) \<or> (\<exists>x. r = Inr (RBulk x) \<and> read_int x = Some n)"
  by (cases r rule: cmd_Int64.cases) (auto split: option.splits)

text \<open>
  A rate-limited page is never punished. Whatever the server does, Fail with FailRateLimited
  never reports Dead, and neither the dead hash nor the strikes nor the listing schedule change.
\<close>

theorem rate_limited_never_dead:
  assumes "redis_server (client f)" and "fr_Fail f now j FailRateLimited s = (r, s')"
  shows "r \<noteq> Inr Dead \<and> dhashes s' keyDead = dhashes s keyDead \<and> dhashes s' keyStrikes = dhashes s keyStrikes \<and>
    dzsets s' keyListingNext = dzsets s keyListingNext"
proof -
  let ?I = "\<lambda>t. dhashes t keyDead = dhashes s keyDead \<and> dhashes t keyStrikes = dhashes s keyStrikes \<and>
    dzsets t keyListingNext = dzsets s keyListingNext"
  let ?sc = "luaFail keyLease keyProcessing keyAttempts keyStrikes keyDelayed keyDead keyJobSeq
    keyListingNext (jobMember j) (jobURL j) False (MaxStrikes (cfg f)) (time_Unix now) ''rate_limited''
    (quarantineUntil f (jobClass j) now) (RateLimitBackoff (cfg f))"
  have "always ?I (\<lambda>r t. r \<noteq> RBulk ''DEAD'') ?sc s"
    by (auto simp: luaFail_def fail_delay_def call_defs store_simps Let_def STALE_def split: option.splits)
  from redis_server.eval_inv [OF assms(1) this] redis_server.eval_post [OF assms(1) this] assms(2)
  show ?thesis
    by (cases "client f ?sc s"; cases "fst (client f ?sc s)")
       (auto simp: fr_Fail_def Let_def split: if_splits sum.splits)
qed

subsection \<open>Listings\<close>

lemma listing_ttl_min: "listing_ttl base mx b = min (base * 2 ^ nat b) mx"
  by (simp add: listing_ttl_def Let_def min_def)

lemma complete_listing_run:
  assumes "m \<in> zmembers (dzsets s keyLease)" and "counter (dhashes s keyListingBarren) u = Some b"
    and "b' = (if children > 0 then 0 else b + 1)"
  shows "\<exists>s'. run_det (luaCompleteListing keyLease keyProcessing keyListingNext keyListingBarren keyDead
      keyAttempts keyStrikes m u children now base mx) s = Some (RBulk ''OK'', s') \<and>
    dlists s' = (dlists s)(keyProcessing := remove1 m (dlists s keyProcessing)) \<and>
    dzsets s' = (dzsets s)(keyLease := zrem m (dzsets s keyLease),
      keyListingNext := zadd (now + listing_ttl base mx b') u (dzsets s keyListingNext)) \<and>
    dhashes s' = (dhashes s)(keyListingBarren := AList.update u (dec b') (dhashes s keyListingBarren),
      keyDead := AList.delete u (dhashes s keyDead), keyAttempts := AList.delete u (dhashes s keyAttempts),
      keyStrikes := AList.delete u (dhashes s keyStrikes)) \<and>
    dints s' = dints s \<and> dbloom s' = dbloom s"
proof -
  obtain sc where "zscore (dzsets s keyLease) m = Some sc"
    using leased_score [OF assms(1)] by blast
  then show ?thesis
    using assms(2,3)
    by (cases "children > 0")
       (auto simp: luaCompleteListing_def call_defs OK_def Let_def counter_def split: option.splits)
qed

text \<open>
  C28: the revisit schedule. CompleteListing releases a listing from PENDING to an instant that is the
  base TTL of its class doubled once for each barren visit in a row, and never later than the maximum
  TTL; a visit with new children resets the count, one without adds to it. The visit overrides an
  earlier dead entry and clears the failure counters, and the job leaves processing.
\<close>

theorem complete_listing_schedules:
  fixes b newChildren :: int and f j
  defines "b' \<equiv> if newChildren > 0 then 0 else b + 1"
    and "base \<equiv> go_div (if jobClass j = ClassSeed then SeedTTL (cfg f) else ListingBaseTTL (cfg f)) time_Second"
    and "longest \<equiv> go_div (ListingMaxTTL (cfg f)) time_Second"
  assumes "redis_reliable (client f)" and "jobMember j \<in> zmembers (dzsets s keyLease)"
    and "counter (dhashes s keyListingBarren) (jobURL j) = Some b" and "0 \<le> b"
  shows "\<exists>s'. fr_CompleteListing f now j newChildren s = (Inr (), s') \<and>
    dzsets s' keyListingNext =
      zadd (time_Unix now + min (base * 2 ^ nat b') longest) (jobURL j) (dzsets s keyListingNext) \<and>
    counter (dhashes s' keyListingBarren) (jobURL j) = Some b' \<and>
    map_of (dhashes s' keyDead) (jobURL j) = None \<and>
    counter (dhashes s' keyAttempts) (jobURL j) = Some 0 \<and> counter (dhashes s' keyStrikes) (jobURL j) = Some 0 \<and>
    dlists s' keyReady = dlists s keyReady \<and> dzsets s' keyDelayed = dzsets s keyDelayed \<and>
    dlists s' keyProcessing = remove1 (jobMember j) (dlists s keyProcessing) \<and>
    dzsets s' keyLease = zrem (jobMember j) (dzsets s keyLease)"
proof -
  obtain s' where "run_det (luaCompleteListing keyLease keyProcessing keyListingNext keyListingBarren keyDead
      keyAttempts keyStrikes (jobMember j) (jobURL j) newChildren (time_Unix now) base longest) s =
      Some (RBulk ''OK'', s')"
    and s': "dlists s' = (dlists s)(keyProcessing := remove1 (jobMember j) (dlists s keyProcessing))"
    "dzsets s' = (dzsets s)(keyLease := zrem (jobMember j) (dzsets s keyLease),
      keyListingNext := zadd (time_Unix now + listing_ttl base longest b') (jobURL j) (dzsets s keyListingNext))"
    "dhashes s' = (dhashes s)(keyListingBarren := AList.update (jobURL j) (dec b') (dhashes s keyListingBarren),
      keyDead := AList.delete (jobURL j) (dhashes s keyDead), keyAttempts := AList.delete (jobURL j) (dhashes s keyAttempts),
      keyStrikes := AList.delete (jobURL j) (dhashes s keyStrikes))"
    using complete_listing_run [OF assms(5,6), of b' newChildren "time_Unix now" base longest]
    unfolding b'_def by blast
  from reliable_run [OF assms(4) this(1)]
  have "fr_CompleteListing f now j newChildren s = (Inr (), s')"
    by (simp add: fr_CompleteListing_def stale_check_def base_def longest_def)
  with s' show ?thesis
    by (simp add: listing_ttl_min delete_conv')
qed

subsection \<open>Terminal outcomes\<close>

text \<open>
  A terminal outcome is remembered: after Terminal the dead hash names the reason and the deadline
  of the URL, a listing with a deadline is scheduled for exactly that instant, the job is gone and its
  counters are cleared; nothing is requeued.
\<close>

lemma terminal_effect:
  assumes "redis_reliable (client f)" and "jobMember j \<in> zmembers (dzsets s keyLease)"
  shows "\<exists>s'. fr_Terminal f j reason til s = (Inr (), s') \<and>
    dhashes s' keyDead = AList.update (jobURL j) (reason @ ''|'' @ dec (unixOrZero til)) (dhashes s keyDead) \<and>
    zscore (dzsets s' keyListingNext) (jobURL j) =
      (if unixOrZero til > 0 then Some (unixOrZero til) else zscore (dzsets s keyListingNext) (jobURL j)) \<and>
    counter (dhashes s' keyAttempts) (jobURL j) = Some 0 \<and> counter (dhashes s' keyStrikes) (jobURL j) = Some 0 \<and>
    dlists s' keyReady = dlists s keyReady \<and> dzsets s' keyDelayed = dzsets s keyDelayed \<and>
    dlists s' keyProcessing = remove1 (jobMember j) (dlists s keyProcessing) \<and>
    dzsets s' keyLease = zrem (jobMember j) (dzsets s keyLease)"
proof -
  obtain sc where "zscore (dzsets s keyLease) (jobMember j) = Some sc"
    using leased_score [OF assms(2)] by blast
  then have "run_det (luaTerminal keyLease keyProcessing keyDead keyAttempts keyStrikes keyListingNext
      (jobMember j) (jobURL j) reason (unixOrZero til)) s =
    Some (RBulk ''OK'', s\<lparr>dzsets := (dzsets s)(keyLease := zrem (jobMember j) (dzsets s keyLease),
        keyListingNext := if unixOrZero til > 0 then zadd (unixOrZero til) (jobURL j) (dzsets s keyListingNext)
          else dzsets s keyListingNext),
      dhashes := (dhashes s)(keyDead := AList.update (jobURL j) (reason @ ''|'' @ dec (unixOrZero til)) (dhashes s keyDead),
        keyAttempts := AList.delete (jobURL j) (dhashes s keyAttempts),
        keyStrikes := AList.delete (jobURL j) (dhashes s keyStrikes)),
      dlists := (dlists s)(keyProcessing := remove1 (jobMember j) (dlists s keyProcessing))\<rparr>)"
    by (simp add: luaTerminal_def call_defs OK_def Let_def) (auto intro!: db.equality)
  from reliable_run [OF assms(1) this] show ?thesis
    by (simp add: fr_Terminal_def stale_check_def)
qed

end
