(* ===== verification/Frontier_Admission.thy ===== *)
theory Frontier_Admission
  imports Frontier_Completion
begin

text \<open>
  Admission and lease, for a server that carries every script out: the three-valued result of
  AdmitListing, New and Suppressed of AdmitVideo, how long a quarantine holds, and the order in which
  jobs are leased.
\<close>

subsection \<open>Listings\<close>

text \<open>The abstract admission rule for a listing: its dead entry first, then its schedule.\<close>

definition listing_verdict :: "hash \<Rightarrow> zset \<Rightarrow> int \<Rightarrow> string \<Rightarrow> AdmitResult" where
  "listing_verdict dead sched now u =
     (if blocked dead now u then Suppressed
      else case zscore sched u of
             None \<Rightarrow> New
           | Some due \<Rightarrow> if due > now then Suppressed else DueRevisit)"

lemma dead_cases:
  assumes "dead_ok H"
  obtains (alive) "map_of H u = None" "\<not> blocked H now u"
    | (held) v t where "map_of H u = Some v" "until_of v = Some t" "t = 0 \<or> t > now" "blocked H now u"
    | (over) v t where "map_of H u = Some v" "until_of v = Some t" "t \<noteq> 0" "\<not> t > now" "\<not> blocked H now u"
  using assms unfolding dead_ok_def blocked_def by (metis not_None_eq option.inject)

lemma admit_listing_run:
  assumes "dead_ok (dhashes s keyDead)"
  shows "\<exists>s'. run_det (luaAdmitListing keyReady keyListingNext keyDead keyJobSeq u now PendingScore) s =
      Some (RInt (listing_verdict (dhashes s keyDead) (dzsets s keyListingNext) now u), s') \<and>
    (if listing_verdict (dhashes s keyDead) (dzsets s keyListingNext) now u = Suppressed
     then dlists s' = dlists s \<and> dzsets s' = dzsets s \<and> dints s' = dints s
     else dlists s' = (dlists s)(keyReady := job_member (dints s keyJobSeq + 1) u # dlists s keyReady) \<and>
       dzsets s' = (dzsets s)(keyListingNext := zadd PendingScore u (dzsets s keyListingNext)) \<and>
       map_of (dhashes s' keyDead) u = None)"
  using assms
proof (cases rule: dead_cases [where u = u and now = now])
  case alive
  then show ?thesis
    by (cases "zscore (dzsets s keyListingNext) u")
       (simp_all add: luaAdmitListing_def call_defs Let_def listing_verdict_def New_def DueRevisit_def
          Suppressed_def del: zscore_None_iff)
next
  case (held v t)
  then show ?thesis
    by (auto simp: luaAdmitListing_def call_defs Let_def listing_verdict_def Suppressed_def)
next
  case (over v t)
  then show ?thesis
    by (cases "zscore (dzsets s keyListingNext) u")
       (simp_all add: luaAdmitListing_def call_defs Let_def listing_verdict_def New_def DueRevisit_def
          Suppressed_def delete_conv' del: zscore_None_iff)
qed

text \<open>
  C30: AdmitListing. The call answers by the listing's dead entry and schedule: Suppressed while either
  holds it back, New for a listing never scheduled, DueRevisit for one whose time has come. When it
  admits, exactly one job is pushed and the listing becomes PENDING and leaves the dead hash; when it
  suppresses, no queue and no schedule changes.
\<close>

theorem admit_listing_verdict:
  fixes f now u s
  defines "r \<equiv> listing_verdict (dhashes s keyDead) (dzsets s keyListingNext) (time_Unix now) u"
  assumes "redis_reliable (client f)" and "dead_ok (dhashes s keyDead)"
  shows "\<exists>s'. fr_AdmitListing f now u s = (Inr r, s') \<and>
    (if r = Suppressed then dlists s' = dlists s \<and> dzsets s' = dzsets s
     else dlists s' keyReady = job_member (dints s keyJobSeq + 1) u # dlists s keyReady \<and>
       dlists s' keyProcessing = dlists s keyProcessing \<and>
       dzsets s' = (dzsets s)(keyListingNext := zadd PendingScore u (dzsets s keyListingNext)) \<and>
       map_of (dhashes s' keyDead) u = None)"
proof -
  obtain s' where run: "run_det (luaAdmitListing keyReady keyListingNext keyDead keyJobSeq u (time_Unix now) PendingScore) s =
      Some (RInt r, s')"
    and s': "if r = Suppressed then dlists s' = dlists s \<and> dzsets s' = dzsets s \<and> dints s' = dints s
     else dlists s' = (dlists s)(keyReady := job_member (dints s keyJobSeq + 1) u # dlists s keyReady) \<and>
       dzsets s' = (dzsets s)(keyListingNext := zadd PendingScore u (dzsets s keyListingNext)) \<and>
       map_of (dhashes s' keyDead) u = None"
    using admit_listing_run [OF assms(3), of u "time_Unix now"] unfolding r_def by blast
  from reliable_run [OF assms(2) run] s' show ?thesis
    by (auto simp: fr_AdmitListing_def split: if_splits)
qed

subsection \<open>Videos\<close>

text \<open>
  C31: AdmitVideo. On a server that runs scripts to their end the call answers New exactly when the URL
  is not held back by the dead hash and the Bloom filter does not know it; then exactly one job for it
  has been pushed and the filter knows it. Otherwise the ready list ends as it began.
\<close>

theorem admit_video_verdict:
  assumes "redis_reliable (client f)" and "dead_ok (dhashes s keyDead)"
  shows "\<exists>r s'. fr_AdmitVideo f now u s = (Inr r, s') \<and>
    (if \<not> blocked (dhashes s keyDead) (time_Unix now) u \<and> u \<notin> dbloom s bloomKey
     then r = New \<and> dlists s' keyReady = job_member (dints s keyJobSeq + 1) u # dlists s keyReady \<and>
       u \<in> dbloom s' bloomKey
     else r = Suppressed \<and> dlists s' keyReady = dlists s keyReady) \<and>
    dlists s' keyProcessing = dlists s keyProcessing \<and> dzsets s' = dzsets s"
proof -
  let ?sc = "luaAdmitVideo keyReady bloomKey keyDead keyJobSeq u (time_Unix now)"
  have "cannot_fail ?sc s"
    by (cases rule: dead_cases [OF assms(2), where u = u and now = "time_Unix now"])
       (auto simp: luaAdmitVideo_def call_defs store_simps Let_def bf_add_def)
  then obtain q s' where run: "client f ?sc s = (Inr q, s')"
    using redis_reliable.eval_total [OF assms(1)] by blast
  then have ran: "completes ?sc s q s'"
    by (rule redis_server.eval_done [OF redis_reliable.axioms(1) [OF assms(1)]])
  have "fr_AdmitVideo f now u s = (cmd_Int64 (Inr q), s')"
    using run by (simp add: fr_AdmitVideo_def)
  with ran show ?thesis
    by (cases rule: dead_cases [OF assms(2), where u = u and now = "time_Unix now"])
       (auto simp: luaAdmitVideo_def call_defs store_simps Let_def bf_add_def New_def Suppressed_def split: if_splits)
qed

lemma admit_video_held:
  assumes "redis_reliable (client f)" and "blocked (dhashes s keyDead) (time_Unix now) u"
  shows "fr_AdmitVideo f now u s = (Inr Suppressed, s)"
proof -
  have "run_det (luaAdmitVideo keyReady bloomKey keyDead keyJobSeq u (time_Unix now)) s = Some (RInt 0, s)"
    using assms(2) by (auto simp: luaAdmitVideo_def call_defs Let_def blocked_def)
  from reliable_run [OF assms(1) this] show ?thesis
    by (simp add: fr_AdmitVideo_def Suppressed_def)
qed

subsection \<open>Quarantine\<close>

lemma dead_ok_update: "dead_ok H \<Longrightarrow> until_of v \<noteq> None \<Longrightarrow> dead_ok (AList.update u v H)"
  by (auto simp: dead_ok_def update_conv')

lemma admit_listing_result:
  "redis_reliable (client f) \<Longrightarrow> dead_ok (dhashes s keyDead) \<Longrightarrow> fst (fr_AdmitListing f now u s) =
   Inr (listing_verdict (dhashes s keyDead) (dzsets s keyListingNext) (time_Unix now) u)"
  using admit_listing_run [of s u "time_Unix now"]
  by (auto simp: fr_AdmitListing_def dest!: reliable_run)

text \<open>
  C29: a quarantine holds and then ends. After Terminal with a deadline, the listing is dead with that
  deadline and its job gone; admissions before the deadline are suppressed, admissions from the deadline
  on are due revisits. After Terminal with the zero time, the URL is suppressed at every instant.
\<close>

theorem quarantine_cycle:
  assumes "redis_reliable (client f)" and "jobMember j \<in> zmembers (dzsets s keyLease)"
    and "dead_ok (dhashes s keyDead)" and "reason_ok reason"
  shows "\<exists>s1. fr_Terminal f j reason til s = (Inr (), s1) \<and>
    jobMember j \<notin> zmembers (dzsets s1 keyLease) \<and> dlists s1 keyReady = dlists s keyReady \<and>
    dlists s1 keyProcessing = remove1 (jobMember j) (dlists s keyProcessing) \<and>
    (til = zero_time \<longrightarrow> (\<forall>now. fst (fr_AdmitListing f now (jobURL j) s1) = Inr Suppressed \<and>
       fr_AdmitVideo f now (jobURL j) s1 = (Inr Suppressed, s1))) \<and>
    (0 < unixOrZero til \<longrightarrow> (\<forall>now. fst (fr_AdmitListing f now (jobURL j) s1) =
       Inr (if time_Unix now < unixOrZero til then Suppressed else DueRevisit)))"
proof -
  obtain s1 where s1: "fr_Terminal f j reason til s = (Inr (), s1)"
    "dhashes s1 keyDead = AList.update (jobURL j) (reason @ ''|'' @ dec (unixOrZero til)) (dhashes s keyDead)"
    "zscore (dzsets s1 keyListingNext) (jobURL j) =
      (if unixOrZero til > 0 then Some (unixOrZero til) else zscore (dzsets s keyListingNext) (jobURL j))"
    "dlists s1 keyReady = dlists s keyReady"
    "dlists s1 keyProcessing = remove1 (jobMember j) (dlists s keyProcessing)"
    "dzsets s1 keyLease = zrem (jobMember j) (dzsets s keyLease)"
    using terminal_effect [OF assms(1,2), of reason til] by auto
  have til: "until_of (reason @ ''|'' @ dec (unixOrZero til)) = Some (unixOrZero til)"
    using assms(4) by (intro until_of_append) (simp add: reason_ok_def)
  then have "dead_ok (dhashes s1 keyDead)"
    using s1(2) assms(3) by (simp add: dead_ok_update del: append_Cons)
  note admit = admit_listing_result [OF assms(1) this]
  have blocked: "blocked (dhashes s1 keyDead) n (jobURL j) \<longleftrightarrow> unixOrZero til = 0 \<or> unixOrZero til > n" for n
    using s1(2) til by (auto simp: blocked_def update_conv')
  have "unixOrZero zero_time = 0" by (simp add: unixOrZero_def)
  with s1(1,3-6) show ?thesis
    by (auto simp: admit admit_video_held [OF assms(1)] listing_verdict_def blocked)
qed

subsection \<open>Lease\<close>

text \<open>
  Jobs are leased first in, first out. Lease on an empty ready list answers no job and changes
  nothing; otherwise it hands out the job that has waited longest, split into its number and URL and
  classified, moves it to processing and records its expiry.
\<close>

theorem lease_oldest:
  assumes "redis_reliable (client f)"
  shows "case rev (dlists s keyReady) of
      [] \<Rightarrow> fr_Lease f now s = (Inr None, s)
    | m # ms \<Rightarrow> \<exists>s'. fr_Lease f now s =
        (Inr (Some \<lparr>jobID = fst (splitMember m), jobURL = snd (splitMember m),
           jobClass = (case classify f of None \<Rightarrow> ClassListing | Some g \<Rightarrow> g (snd (splitMember m))),
           jobMember = m\<rparr>), s') \<and>
        dlists s' keyReady = rev ms \<and> dlists s' keyProcessing = m # dlists s keyProcessing \<and>
        zscore (dzsets s' keyLease) m = Some (time_Unix now + go_div (LeaseTimeout (cfg f)) time_Second) \<and>
        dints s' = dints s \<and> dhashes s' = dhashes s \<and> dzsets s' keyDelayed = dzsets s keyDelayed"
proof (cases "dlists s keyReady" rule: rev_cases)
  case Nil
  then have "run_det (luaLease keyReady keyProcessing keyLease (time_Unix now)
      (go_div (LeaseTimeout (cfg f)) time_Second)) s = Some (RNil, s)"
    by (simp add: luaLease_def call_defs)
  from reliable_run [OF assms this] Nil show ?thesis by (simp add: fr_Lease_def)
next
  case (snoc ms m)
  then have "run_det (luaLease keyReady keyProcessing keyLease (time_Unix now)
      (go_div (LeaseTimeout (cfg f)) time_Second)) s =
    Some (RBulk m, s\<lparr>dlists := (dlists s)(keyReady := ms, keyProcessing := m # dlists s keyProcessing),
      dzsets := (dzsets s)(keyLease := zadd (time_Unix now + go_div (LeaseTimeout (cfg f)) time_Second) m
        (dzsets s keyLease))\<rparr>)"
    by (simp add: luaLease_def call_defs Let_def)
  from reliable_run [OF assms this] snoc show ?thesis
    by (simp add: fr_Lease_def Let_def case_prod_beta)
qed

end
