(* ===== verification/Frontier_Reconcile.thy ===== *)
theory Frontier_Reconcile
  imports Frontier_Admission
begin

text \<open>
  The reconciler primitives and the statistics, for a server that carries every script out: what Reap,
  Sweep, Promote and RunListingScheduler move and answer, recovery after the workers are gone, and what
  Idle tells.
\<close>

subsection \<open>The four calls\<close>

lemma well_formed_subset: "set xs \<subseteq> set ys \<Longrightarrow> well_formed ys \<Longrightarrow> well_formed xs"
  by (auto simp: well_formed_def)

lemma length_zrange: "0 \<le> n \<Longrightarrow> length (zrange mx n z) = min (nat n) (length (filter (\<lambda>p. fst p \<le> mx) z))"
  by (simp add: zrange_def Let_def)

lemma zrange_complete:
  "0 \<le> n \<Longrightarrow> length (filter (\<lambda>p. fst p \<le> mx) z) \<le> nat n \<Longrightarrow> (sc, m) \<in> set z \<Longrightarrow> sc \<le> mx \<Longrightarrow>
   m \<in> set (zrange mx n z)"
  by (force simp: zrange_def Let_def)

lemma lrange_tail: "0 < l \<Longrightarrow> lrange (- l) (- 1) xs = drop (length xs - nat l) xs"
  by (auto simp: lrange_def Let_def max_def nat_diff_distrib)

lemma reap_call:
  fixes now :: time
  assumes "redis_reliable (client f)" and "frontier_inv vid A s"
  defines "E \<equiv> zrange (time_Unix now) reapBatchLimit (dzsets s keyLease)"
  shows "\<exists>s'. fr_Reap f now s = (Inr (int (length E)), s') \<and>
    dlists s' keyReady = rev (fresh_jobs (dints s keyJobSeq) (map url_of E)) @ dlists s keyReady \<and>
    dlists s' keyProcessing = filter (\<lambda>m. m \<notin> set E) (dlists s keyProcessing) \<and>
    dzsets s' keyLease = filter (\<lambda>p. snd p \<notin> set E) (dzsets s keyLease) \<and>
    dzsets s' keyDelayed = dzsets s keyDelayed \<and> dzsets s' keyListingNext = dzsets s keyListingNext \<and>
    dhashes s' = dhashes s"
proof -
  note inv = inv_facts [OF assms(2)]
  have E: "set E \<subseteq> zmembers (dzsets s keyLease)" unfolding E_def by (rule zrange_members)
  with inv(7) have "well_formed E" by (intro well_formed_subset [OF _ inv(3)]) blast
  from reap_loop_run [OF this _ E inv(1), of 0] distinct_zrange [OF inv(4)] obtain s' where
    "run_det (luaReap keyLease keyReady keyProcessing keyJobSeq (time_Unix now) reapBatchLimit) s =
      Some (RInt (int (length E)), s')"
    and s': "dlists s' keyReady = rev (fresh_jobs (dints s keyJobSeq) (map url_of E)) @ dlists s keyReady"
    "dlists s' keyProcessing = filter (\<lambda>m. m \<notin> set E) (dlists s keyProcessing)"
    "dzsets s' keyLease = filter (\<lambda>p. snd p \<notin> set E) (dzsets s keyLease)"
    "dzsets s' keyDelayed = dzsets s keyDelayed" "dzsets s' keyListingNext = dzsets s keyListingNext"
    "dhashes s' = dhashes s"
    by (auto simp: luaReap_def call_defs E_def)
  from reliable_run [OF assms(1) this(1)] s' show ?thesis by (simp add: fr_Reap_def)
qed

lemma sweep_call:
  assumes "redis_reliable (client f)" and "frontier_inv vid A s"
  defines "E \<equiv> filter (\<lambda>m. m \<notin> zmembers (dzsets s keyLease))
    (drop (length (dlists s keyProcessing) - nat sweepBatchLimit) (dlists s keyProcessing))"
  shows "\<exists>s'. fr_Sweep f s = (Inr (int (length E)), s') \<and>
    dints s' keyJobSeq = dints s keyJobSeq + int (length E) \<and>
    dlists s' keyReady = rev (fresh_jobs (dints s keyJobSeq) (map url_of E)) @ dlists s keyReady \<and>
    dlists s' keyProcessing = filter (\<lambda>m. m \<notin> set E) (dlists s keyProcessing) \<and>
    dzsets s' = dzsets s \<and> dhashes s' = dhashes s"
proof -
  note inv = inv_facts [OF assms(2)]
  let ?its = "drop (length (dlists s keyProcessing) - nat sweepBatchLimit) (dlists s keyProcessing)"
  have "lrange (- sweepBatchLimit) (- 1) (dlists s keyProcessing) = ?its"
    by (rule lrange_tail) (simp add: sweepBatchLimit_def)
  moreover have "well_formed ?its" by (rule well_formed_subset [OF _ inv(3)]) (rule set_drop_subset)
  ultimately obtain s' where
    "run_det (luaSweep keyProcessing keyLease keyReady keyJobSeq sweepBatchLimit) s = Some (RInt (int (length E)), s')"
    and s': "dints s' keyJobSeq = dints s keyJobSeq + int (length E)"
    "dlists s' keyReady = rev (fresh_jobs (dints s keyJobSeq) (map url_of E)) @ dlists s keyReady"
    "dlists s' keyProcessing = filter (\<lambda>m. m \<notin> set E) (dlists s keyProcessing)"
    "dzsets s' = dzsets s" "dhashes s' = dhashes s"
    using sweep_loop_run [of ?its s 0] inv(1) by (auto simp: luaSweep_def call_defs E_def Let_def)
  from reliable_run [OF assms(1) this(1)] s' show ?thesis by (simp add: fr_Sweep_def)
qed

text \<open>
  C36: Reap. It reclaims exactly the jobs whose lease has expired, oldest first and at most
  reapBatchLimit of them: each comes back under a fresh job number, loses its lease and leaves
  processing, and every other lease is kept. When no more than the limit had expired, no expired lease
  is left.
\<close>

theorem reap_reclaims:
  fixes now :: time
  assumes "redis_reliable (client f)" and "frontier_inv vid A s"
  defines "E \<equiv> zrange (time_Unix now) reapBatchLimit (dzsets s keyLease)"
  shows "\<exists>s'. fr_Reap f now s = (Inr (int (length E)), s') \<and>
    (\<forall>m \<in> set E. \<exists>sc. zscore (dzsets s keyLease) m = Some sc \<and> sc \<le> time_Unix now) \<and>
    dlists s' keyReady = rev (fresh_jobs (dints s keyJobSeq) (map url_of E)) @ dlists s keyReady \<and>
    dlists s' keyProcessing = filter (\<lambda>m. m \<notin> set E) (dlists s keyProcessing) \<and>
    dzsets s' keyLease = filter (\<lambda>p. snd p \<notin> set E) (dzsets s keyLease) \<and>
    dzsets s' keyDelayed = dzsets s keyDelayed \<and> dhashes s' = dhashes s \<and>
    (length (filter (\<lambda>p. fst p \<le> time_Unix now) (dzsets s keyLease)) \<le> nat reapBatchLimit \<longrightarrow>
       (\<forall>p \<in> set (dzsets s' keyLease). fst p > time_Unix now))"
proof -
  have "fst p > time_Unix now"
    if "length (filter (\<lambda>p. fst p \<le> time_Unix now) (dzsets s keyLease)) \<le> nat reapBatchLimit"
      "p \<in> set (dzsets s keyLease)" "snd p \<notin> set E" for p
    using zrange_complete [of reapBatchLimit "time_Unix now" "dzsets s keyLease" "fst p" "snd p"] that
    by (fastforce simp: E_def reapBatchLimit_def)
  with reap_call [OF assms(1,2), of now, folded E_def] zrange_due [OF inv_facts(4) [OF assms(2)], of _ "time_Unix now" reapBatchLimit]
  show ?thesis unfolding E_def by auto
qed

text \<open>
  C37: Sweep. Among the oldest sweepBatchLimit members of processing it reclaims exactly those without a
  lease (left behind when a lease script stopped midway): each comes back under a fresh job number. No
  lease, delayed job or schedule is touched, and when processing holds no more than the limit, every
  member left in it holds a lease.
\<close>

theorem sweep_recovers:
  assumes "redis_reliable (client f)" and "frontier_inv vid A s"
  defines "E \<equiv> filter (\<lambda>m. m \<notin> zmembers (dzsets s keyLease))
    (drop (length (dlists s keyProcessing) - nat sweepBatchLimit) (dlists s keyProcessing))"
  shows "\<exists>s'. fr_Sweep f s = (Inr (int (length E)), s') \<and>
    dlists s' keyReady = rev (fresh_jobs (dints s keyJobSeq) (map url_of E)) @ dlists s keyReady \<and>
    dlists s' keyProcessing = filter (\<lambda>m. m \<notin> set E) (dlists s keyProcessing) \<and>
    dzsets s' = dzsets s \<and> dhashes s' = dhashes s \<and>
    (length (dlists s keyProcessing) \<le> nat sweepBatchLimit \<longrightarrow>
       set (dlists s' keyProcessing) = zmembers (dzsets s' keyLease))"
  using sweep_call [OF assms(1,2)] inv_facts(7) [OF assms(2)] unfolding E_def by auto

text \<open>A page of the reaper that takes all leases.\<close>

lemma expired_page:
  assumes "frontier_inv vid A s" and "length (dlists s keyProcessing) \<le> 100"
    and "\<forall>p \<in> set (dzsets s keyLease). fst p \<le> time_Unix now"
  shows "set (zrange (time_Unix now) reapBatchLimit (dzsets s keyLease)) = zmembers (dzsets s keyLease)" (is "set ?E = zmembers ?L")
proof -
  let ?P = "dlists s keyProcessing"
  note inv = inv_facts [OF assms(1)]
  have "length ?L = card (zmembers ?L)"
    using inv(4) by (metis distinct_card length_map set_map zmembers_def zset_ok_def)
  also have "\<dots> \<le> card (set ?P)" by (rule card_mono [OF _ inv(7)]) simp
  finally have "length ?L \<le> length ?P" using inv(1) by (simp add: distinct_card)
  then have "length (filter (\<lambda>p. fst p \<le> time_Unix now) ?L) \<le> nat reapBatchLimit"
    using assms(2) by (simp add: reapBatchLimit_def) (meson le_trans length_filter_le)
  with assms(3) show ?thesis
    using zrange_complete [of reapBatchLimit "time_Unix now" ?L] zrange_members [of "time_Unix now" reapBatchLimit ?L]
    by (fastforce simp: zmembers_def reapBatchLimit_def)
qed



text \<open>
  C34: RunListingScheduler. Of the page of due listings it admits exactly those the dead hash does not
  hold back, each with one job and marked PENDING; a listing dead for good loses its schedule, a
  quarantined one is rescheduled to its deadline, an expired entry leaves the dead hash. The answer is
  the number admitted, and listings outside the page keep their schedule.
\<close>

theorem schedule_page:
  fixes now :: time
  assumes "redis_reliable (client f)" and "frontier_inv vid A s"
  defines "due \<equiv> zrange (time_Unix now) (SchedulerBatchLimit (cfg f)) (dzsets s keyListingNext)"
    and "admitted \<equiv> filter (\<lambda>u. \<not> blocked (dhashes s keyDead) (time_Unix now) u)
      (zrange (time_Unix now) (SchedulerBatchLimit (cfg f)) (dzsets s keyListingNext))"
  shows "\<exists>s'. fr_RunListingScheduler f now s = (Inr (int (length admitted)), s') \<and>
    dlists s' keyReady = rev (fresh_jobs (dints s keyJobSeq) admitted) @ dlists s keyReady \<and>
    dlists s' keyProcessing = dlists s keyProcessing \<and>
    (\<forall>u. zscore (dzsets s' keyListingNext) u =
       (if u \<in> set due then next_due (dhashes s keyDead) (time_Unix now) u
        else zscore (dzsets s keyListingNext) u)) \<and>
    (\<forall>u. map_of (dhashes s' keyDead) u = (if u \<in> set admitted then None else map_of (dhashes s keyDead) u)) \<and>
    dzsets s' keyLease = dzsets s keyLease \<and> dzsets s' keyDelayed = dzsets s keyDelayed"
proof -
  note inv = inv_facts [OF assms(2)]
  have "distinct due" unfolding due_def by (rule distinct_zrange [OF inv(6)])
  from scheduler_loop_run [OF this inv(8), of "time_Unix now" 0] obtain s' where
    "run_det (luaListingScheduler keyListingNext keyReady keyJobSeq keyDead (time_Unix now)
       (SchedulerBatchLimit (cfg f)) PendingScore) s = Some (RInt (int (length admitted)), s')"
    and "after_schedule due (time_Unix now) s s'"
    by (auto simp: luaListingScheduler_def call_defs admitted_def due_def)
  from reliable_run [OF assms(1) this(1)] this(2) show ?thesis
    by (auto simp: fr_RunListingScheduler_def after_schedule_def Let_def admitted_def due_def)
qed

subsection \<open>Statistics\<close>

text \<open>Commands that only read, as the statistics pipeline sends them.\<close>

lemma pipeline_reads:
  "redis_reliable ev \<Longrightarrow> (\<And>c. c \<in> set cs \<Longrightarrow> cmd_fun c s = Some (g c, s)) \<Longrightarrow> pipeline ev cs s = (Inr (map g cs), s)"
proof (induction cs)
  case (Cons c cs)
  then have "ev (Call c Return) s = (Inr (g c), s)"
    by (intro redis_reliable.eval_run_det) simp_all
  with Cons show ?case by simp
qed simp

lemma stats_call:
  assumes "redis_reliable (client f)"
  shows "fr_Stats f s = (Inr \<lparr>stReady = int (length (dlists s keyReady)),
     stProcessing = int (length (dlists s keyProcessing)), stDelayed = int (length (dzsets s keyDelayed)),
     stListingsScheduled = int (length (filter (\<lambda>p. fst p \<le> PendingScore - 1) (dzsets s keyListingNext))),
     stListingsPending = int (length (filter (\<lambda>p. PendingScore \<le> fst p \<and> fst p \<le> PendingScore) (dzsets s keyListingNext))),
     stDead = int (length (dhashes s keyDead)), stStrikes = int (length (dhashes s keyStrikes))\<rparr>, s)"
proof -
  have "pipeline (client f) stats_cmds s = (Inr (map (\<lambda>c. fst (the (cmd_fun c s))) stats_cmds), s)"
    by (rule pipeline_reads [OF assms]) (auto simp: stats_cmds_def)
  then show ?thesis by (simp add: fr_Stats_def stats_cmds_def)
qed

text \<open>
  C35: an idle frontier owes nothing. Idle reads without changing anything and answers whether ready,
  processing and delayed are all empty; when it answers yes in a state the frontier's calls reach, no
  listing is PENDING and every admitted video has been acknowledged or is dead for good.
\<close>

theorem idle_owes_nothing:
  assumes "redis_reliable (client f)" and "frontier_inv vid A s"
  shows "\<exists>b. fr_Idle f s = (Inr b, s) \<and>
    (b \<longleftrightarrow> dlists s keyReady = [] \<and> dlists s keyProcessing = [] \<and> dzsets s keyDelayed = []) \<and>
    (b \<longrightarrow> (\<forall>u. zscore (dzsets s keyListingNext) u \<noteq> Some PendingScore) \<and>
       (\<forall>u \<in> A. dead_forever (dhashes s keyDead) u))"
proof -
  have "owed A (dzsets s keyListingNext) (dhashes s keyDead) u \<longrightarrow> has_job s u" for u
    using assms(2) by (simp add: frontier_inv_def covered_def has_job_def)
  then show ?thesis
    by (auto simp: fr_Idle_def stats_call [OF assms(1)] has_job_def live_def owed_def)
qed

end
