(* ===== verification/Frontier_Call_Samples.thy ===== *)
theory Frontier_Call_Samples
  imports Frontier_Samples Frontier_Reconcile
begin

text \<open>
  The functional properties of the frontier's calls on the sample run, whose last state has both jobs
  leased at instant 0 and whose second state has both ready.
\<close>

lemma sample_client: "redis_reliable (client sample)"
  by (simp add: sample_def sample_server)

lemma sample_inv:
  "frontier_inv (\<lambda>u. sample_classifier u = ClassVideo) {''v''} sample_2"
  "frontier_inv (\<lambda>u. sample_classifier u = ClassVideo) {''v''} sample_4"
  using runs_inv [OF sample_server(1) sample_reached(1)] runs_inv [OF sample_server(1) sample_reached(3)] .

lemma sample_2_facts:
  "dlists sample_2 keyReady = [''2|v'', ''1|l'']" "dlists sample_2 keyProcessing = []"
  by code_simp+

lemma sample_4_facts:
  "dlists sample_4 keyReady = []" "dlists sample_4 keyProcessing = [''2|v'', ''1|l'']"
  "dzsets sample_4 keyLease = [(600, ''1|l''), (600, ''2|v'')]" "dzsets sample_4 keyDelayed = []"
  "dhashes sample_4 keyDead = []" "dhashes sample_4 keyAttempts = []" "dhashes sample_4 keyStrikes = []"
  "dhashes sample_4 keyListingBarren = []" "dints sample_4 keyJobSeq = 2"
  "dzsets sample_4 keyListingNext = [(PendingScore, ''l'')]"
  by code_simp+

lemma sample_leased:
  "jobMember listing_job \<in> zmembers (dzsets sample_4 keyLease)"
  "jobMember video_job \<in> zmembers (dzsets sample_4 keyLease)"
  by (simp_all add: sample_4_facts listing_job_def video_job_def zmembers_def)

lemma sample_fields:
  "jobURL listing_job = ''l''" "jobMember listing_job = ''1|l''" "jobClass listing_job = ClassListing"
  "jobURL video_job = ''v''" "jobMember video_job = ''2|v''" "jobClass video_job = ClassVideo"
  "cfg sample = DefaultFrontierConfig"
  by (simp_all add: listing_job_def video_job_def sample_def)

lemma sample_members: "job_member 3 ''l'' = ''3|l''" "job_member 3 ''v'' = ''3|v''" "job_member 4 ''v'' = ''4|v''"
  by code_simp+

theorem nack_requeues_witness:
  "\<exists>s. fr_Nack sample listing_job sample_4 = (Inr (), s) \<and> dlists s keyReady = [''3|l''] \<and>
     dlists s keyProcessing = [''2|v'']"
  using nack_requeues [OF sample_client sample_leased(1)]
  by (auto simp: sample_4_facts sample_fields sample_members)

theorem ack_finishes_witness:
  "\<exists>s. fr_Ack sample video_job sample_4 = (Inr (), s) \<and> dlists s keyReady = [] \<and>
     dlists s keyProcessing = [''1|l'']"
  using ack_finishes [OF sample_client sample_leased(2)]
  by (auto simp: sample_4_facts sample_fields)

theorem fail_policy_witness:
  "\<exists>s. fr_Fail sample 0 video_job FailStrikeable sample_4 = (Inr Delayed, s) \<and>
     dzsets s keyDelayed = [(60, ''3|v'')]"
proof -
  have "backoff_of (StrikeBackoff (cfg sample)) (0 + 1) = 60" "time_Unix 0 = 0"
    "MaxStrikes (cfg sample) = 5" "StrikeBackoff (cfg sample) \<noteq> []" by code_simp+
  with fail_policy [where f = sample and j = video_job and s = sample_4 and now = 0 and fc = FailStrikeable
      and a = 0 and k = 0, OF sample_client sample_leased(2)]
  show ?thesis
    by (auto simp: sample_4_facts sample_fields sample_members counter_def zadd_def zrem_def)
qed

theorem rate_limited_never_dead_witness:
  "fst (fr_Fail sample 0 video_job FailRateLimited sample_4) = Inr Delayed \<and>
   dhashes (snd (fr_Fail sample 0 video_job FailRateLimited sample_4)) keyDead = []"
proof -
  have "fst (fr_Fail sample 0 video_job FailRateLimited sample_4) = Inr Delayed" by code_simp
  with rate_limited_never_dead [OF redis_reliable.axioms(1) [OF sample_client] prod.collapse [symmetric]]
  show ?thesis by (simp add: sample_4_facts)
qed

theorem complete_listing_schedules_witness:
  "\<exists>s. fr_CompleteListing sample 0 listing_job 0 sample_4 = (Inr (), s) \<and>
     dzsets s keyListingNext = [(518400, ''l'')] \<and> counter (dhashes s keyListingBarren) ''l'' = Some 1"
proof -
  have "go_div (ListingBaseTTL (cfg sample)) time_Second = 259200" "time_Unix 0 = 0"
    "go_div (ListingMaxTTL (cfg sample)) time_Second = 1814400" by code_simp+
  with complete_listing_schedules [where f = sample and j = listing_job and s = sample_4 and now = 0
      and newChildren = 0 and b = 0, OF sample_client sample_leased(1)]
  show ?thesis
    by (auto simp: sample_4_facts sample_fields counter_def zadd_def zrem_def)
qed

theorem admit_listing_verdict_witness:
  "\<exists>s. fr_AdmitListing sample 0 ''m'' sample_4 = (Inr New, s) \<and> dlists s keyReady = [''3|m'']"
proof -
  have "job_member 3 ''m'' = ''3|m''" by code_simp
  with admit_listing_verdict [where f = sample and s = sample_4 and now = 0 and u = "''m''", OF sample_client]
  show ?thesis
    by (auto simp: sample_4_facts dead_ok_def listing_verdict_def blocked_def New_def Suppressed_def)
qed

theorem admit_video_verdict_witness:
  "\<exists>s. fr_AdmitVideo sample 0 ''v'' sample_4 = (Inr Suppressed, s) \<and> dlists s keyReady = []"
proof -
  have "(''v'' \<in> dbloom sample_4 bloomKey) = True" by code_simp
  with admit_video_verdict [where f = sample and s = sample_4 and now = 0 and u = "''v''", OF sample_client]
  show ?thesis by (auto simp: sample_4_facts dead_ok_def blocked_def)
qed

theorem quarantine_cycle_witness:
  "\<exists>s. fr_Terminal sample listing_job ''404'' (100 * time_Second) sample_4 = (Inr (), s) \<and>
     fst (fr_AdmitListing sample (99 * time_Second) ''l'' s) = Inr Suppressed \<and>
     fst (fr_AdmitListing sample (100 * time_Second) ''l'' s) = Inr DueRevisit"
proof -
  have t: "unixOrZero (100 * time_Second) = 100" "time_Unix (99 * time_Second) = 99" "time_Unix (100 * time_Second) = 100"
    by code_simp+
  have "dead_ok (dhashes sample_4 keyDead)" "reason_ok ''404''"
    by (simp_all add: sample_4_facts dead_ok_def reason_ok_def)
  from quarantine_cycle [OF sample_client sample_leased(1) this, of "100 * time_Second"] t show ?thesis
    by (auto simp: sample_fields)
qed

theorem lease_oldest_witness:
  "\<exists>s. fr_Lease sample 0 sample_2 = (Inr (Some listing_job), s) \<and> dlists s keyReady = [''2|v'']"
proof -
  have "splitMember ''1|l'' = (''1'', ''l'')" by code_simp
  with lease_oldest [where s = sample_2 and now = 0, OF sample_client] show ?thesis
    by (auto simp: sample_2_facts listing_job_def sample_def sample_classifier_def)
qed

theorem reap_reclaims_witness:
  "\<exists>s. fr_Reap sample (600 * time_Second) sample_4 = (Inr 2, s) \<and> dlists s keyReady = [''4|v'', ''3|l''] \<and>
     dlists s keyProcessing = [] \<and> dzsets s keyLease = []"
proof -
  have E: "zrange (time_Unix (600 * time_Second)) reapBatchLimit (dzsets sample_4 keyLease) = [''1|l'', ''2|v'']"
    "url_of ''1|l'' = ''l''" "url_of ''2|v'' = ''v''"
    by code_simp+
  from reap_reclaims [OF sample_client sample_inv(2), of "600 * time_Second"] show ?thesis
    by (auto simp: E [unfolded sample_4_facts] sample_4_facts sample_members)
qed

definition sample_orphan :: db where
  \<comment> \<open>a lease script that stopped after its LMOVE\<close>
  "sample_orphan = snd (fr_Lease (mk_frontier (crash_eval 1) DefaultFrontierConfig sample_classifier) 0 sample_2)"

lemma sample_orphan_inv: "frontier_inv (\<lambda>u. sample_classifier u = ClassVideo) {''v''} sample_orphan"
proof -
  have "redis_server (crash_eval 1)" by unfold_locales
  from redis_server.eval_inv [OF this luaLease_inv [OF sample_inv(1)]]
  show ?thesis by (simp add: sample_orphan_def fr_Lease_def Let_def)
qed

lemma sample_orphan_facts:
  "dlists sample_orphan keyReady = [''2|v'']" "dlists sample_orphan keyProcessing = [''1|l'']"
  "dzsets sample_orphan keyLease = []" "dints sample_orphan keyJobSeq = 2"
  by code_simp+

theorem sweep_recovers_witness:
  "\<exists>s. fr_Sweep sample sample_orphan = (Inr 1, s) \<and> dlists s keyReady = [''3|l'', ''2|v''] \<and>
     dlists s keyProcessing = []"
proof -
  have "rev (fresh_jobs 2 (map url_of [''1|l''])) = [''3|l'']" by code_simp
  with sweep_recovers [OF sample_client sample_orphan_inv] show ?thesis
    by (auto simp: sample_orphan_facts sweepBatchLimit_def)
qed


definition sample_delayed :: db where
  "sample_delayed = snd (fr_Fail sample 0 video_job FailRateLimited sample_4)"

lemma sample_delayed_inv: "frontier_inv (\<lambda>u. sample_classifier u = ClassVideo) {''v''} sample_delayed"
proof -
  have "jobMember video_job = job_member 2 ''v''" "jobID video_job = dec 2" by code_simp+
  then have "job_ok sample_classifier video_job"
    unfolding job_ok_def by (auto simp: video_job_def sample_classifier_def)
  moreover have "time_ok DefaultFrontierConfig 0" by code_simp
  ultimately show ?thesis
    using ref_frontier.Fail_inv [OF sample_inv(2), of video_job 0 FailRateLimited]
    by (simp add: sample_delayed_def sample_def NewFrontier_def Let_def)
qed

lemma sample_delayed_facts:
  "dlists sample_delayed keyReady = []" "dzsets sample_delayed keyDelayed = [(300, ''3|v'')]"
  "dints sample_delayed keyJobSeq = 3" "dhashes sample_delayed keyDead = []"
  "dzsets sample_delayed keyListingNext = [(PendingScore, ''l'')]"
  by code_simp+


definition sample_due :: db where
  "sample_due = snd (fr_SeedListing sample ''m'' sample_4)"

lemma sample_due_inv: "frontier_inv (\<lambda>u. sample_classifier u = ClassVideo) {''v''} sample_due"
proof -
  have "sample_classifier ''m'' \<noteq> ClassVideo" by (simp add: sample_classifier_def)
  from ref_frontier.SeedListing_inv [OF sample_inv(2) this] show ?thesis
    by (simp add: sample_due_def sample_def NewFrontier_def Let_def)
qed

lemma sample_due_facts:
  "dlists sample_due keyReady = []" "dzsets sample_due keyListingNext = [(0, ''m''), (PendingScore, ''l'')]"
  "dints sample_due keyJobSeq = 2" "dhashes sample_due keyDead = []"
  by code_simp+

theorem schedule_page_witness:
  "\<exists>s. fr_RunListingScheduler sample 0 sample_due = (Inr 1, s) \<and> dlists s keyReady = [''3|m''] \<and>
     zscore (dzsets s keyListingNext) ''m'' = Some PendingScore"
proof -
  have due: "zrange (time_Unix 0) (SchedulerBatchLimit (cfg sample)) (dzsets sample_due keyListingNext) = [''m'']"
    "job_member 3 ''m'' = ''3|m''" by code_simp+
  from schedule_page [OF sample_client sample_due_inv, of 0] show ?thesis
    by (auto simp: due [unfolded sample_due_facts] sample_due_facts blocked_def next_due_def)
qed

definition sample_done :: db where
  "sample_done = snd (fr_CompleteListing sample 0 listing_job 0 (snd (fr_Ack sample video_job sample_4)))"

lemma sample_done_inv: "frontier_inv (\<lambda>u. sample_classifier u = ClassVideo) {} sample_done"
proof -
  have "jobMember video_job = job_member 2 ''v''" "jobID video_job = dec 2"
    "jobMember listing_job = job_member 1 ''l''" "jobID listing_job = dec 1" by code_simp+
  then have ok: "job_ok sample_classifier video_job" "job_ok sample_classifier listing_job"
    unfolding job_ok_def by (auto simp: video_job_def listing_job_def sample_classifier_def)
  have clock: "time_ok DefaultFrontierConfig 0" by code_simp
  have "frontier_inv (\<lambda>u. sample_classifier u = ClassVideo) {} (snd (fr_Ack sample video_job sample_4))"
    using ref_frontier.Ack_inv [OF sample_inv(2) ok(1)]
    by (simp add: sample_def NewFrontier_def Let_def video_job_def)
  from ref_frontier.CompleteListing_inv [OF this ok(2) _ clock, of 0] show ?thesis
    by (simp add: sample_done_def sample_def NewFrontier_def Let_def listing_job_def)
qed

theorem idle_owes_nothing_witness:
  "fr_Idle sample sample_4 = (Inr False, sample_4) \<and> fr_Idle sample sample_done = (Inr True, sample_done) \<and>
   zscore (dzsets sample_done keyListingNext) ''l'' \<noteq> Some PendingScore"
proof -
  have "dlists sample_done keyReady = []" "dlists sample_done keyProcessing = []" "dzsets sample_done keyDelayed = []"
    by code_simp+
  with idle_owes_nothing [OF sample_client sample_done_inv] idle_owes_nothing [OF sample_client sample_inv(2)]
  show ?thesis by (auto simp: sample_4_facts)
qed

end
