(* ===== verification/Go_Strings.thy ===== *)
theory Go_Strings
  imports Prelude
begin

text \<open>
  The functions of Go's \<^verbatim>\<open>strings\<close> and \<^verbatim>\<open>strconv\<close> packages that the crawler calls, on byte strings.
\<close>

subsection \<open>Searching\<close>

definition HasPrefix :: "string \<Rightarrow> string \<Rightarrow> bool" where
  "HasPrefix s p \<longleftrightarrow> take (length p) s = p"

definition HasSuffix :: "string \<Rightarrow> string \<Rightarrow> bool" where
  "HasSuffix s p \<longleftrightarrow> HasPrefix (rev s) (rev p)"

text \<open>\<^verbatim>\<open>strings.Index\<close>: the first position of a substring, None for -1.\<close>

fun Index :: "string \<Rightarrow> string \<Rightarrow> nat option" where
  "Index [] p = (if p = [] then Some 0 else None)"
| "Index (c # s) p = (if HasPrefix (c # s) p then Some 0 else map_option Suc (Index s p))"

definition Contains :: "string \<Rightarrow> string \<Rightarrow> bool" where
  "Contains s p \<longleftrightarrow> Index s p \<noteq> None"

lemma HasPrefix_append [simp]: "HasPrefix (p @ s) p"
  by (simp add: HasPrefix_def)

lemma HasPrefix_iff: "HasPrefix s p \<longleftrightarrow> (\<exists>t. s = p @ t)"
  unfolding HasPrefix_def by (metis append_eq_conv_conj)

lemma HasPrefix_Nil [simp]: "HasPrefix s []"
  by (simp add: HasPrefix_def)

lemma Index_SomeD:
  "Index s p = Some i \<Longrightarrow> \<exists>t. s = take i s @ p @ t \<and> i + length p \<le> length s"
proof (induction s arbitrary: i)
  case (Cons c s)
  show ?case
  proof (cases "HasPrefix (c # s) p")
    case True
    with Cons.prems obtain t where "c # s = p @ t" "i = 0" by (auto simp: HasPrefix_iff)
    then show ?thesis by (intro exI [of _ t]) (metis append_Nil add_0 length_append le_add1 take_0)
  next
    case False
    with Cons show ?thesis by auto
  qed
qed (simp split: if_splits)

lemma Index_append: "Index (s @ p @ t) p \<noteq> None"
proof (induction s)
  case Nil
  show ?case
  proof (cases "p @ t")
    case (Cons c r)
    have "HasPrefix (c # r) p" unfolding HasPrefix_iff by (metis Cons)
    then show ?thesis using Cons by simp
  qed simp
qed auto

lemma Contains_iff: "Contains s p \<longleftrightarrow> (\<exists>a b. s = a @ p @ b)"
  unfolding Contains_def using Index_append Index_SomeD by (metis not_None_eq)

lemma Contains_append_left: "Contains t p \<Longrightarrow> Contains (s @ t) p"
  unfolding Contains_iff by (metis append.assoc)

lemma Contains_append_right: "Contains s p \<Longrightarrow> Contains (s @ t) p"
  unfolding Contains_iff by (metis append.assoc)

text \<open>The first position is the one before which no occurrence begins.\<close>

lemma Index_first:
  "Index s p = Some i \<longleftrightarrow> i \<le> length s \<and> HasPrefix (drop i s) p \<and> (\<forall>k < i. \<not> HasPrefix (drop k s) p)"
proof (induction s arbitrary: i)
  case (Cons c s)
  show ?case
  proof (cases i)
    case 0
    then show ?thesis by auto
  next
    case (Suc j)
    then show ?thesis
      using Cons.IH [of j] by (auto simp: less_Suc_eq_0_disj)
  qed
qed (auto simp: HasPrefix_def)

text \<open>A single byte: everything before its first occurrence.\<close>

lemma Index_char: "Index s [c] = (if c \<in> set s then Some (length (takeWhile (\<lambda>x. x \<noteq> c) s)) else None)"
  by (induction s) (auto simp: HasPrefix_def)

lemma take_takeWhile: "take (length (takeWhile P s)) s = takeWhile P s"
  by (induction s) auto

subsection \<open>Trimming and splitting\<close>

definition TrimRight :: "string \<Rightarrow> char set \<Rightarrow> string" where
  "TrimRight s cutset = rev (dropWhile (\<lambda>c. c \<in> cutset) (rev s))"

definition TrimSuffix :: "string \<Rightarrow> string \<Rightarrow> string" where
  "TrimSuffix s p = (if HasSuffix s p then take (length s - length p) s else s)"

text \<open>The UTF-8 encodings of the characters that Go's \<^verbatim>\<open>unicode.IsSpace\<close> accepts.\<close>

definition white :: "string list" where
  "white = [[CHR 0x09], [CHR 0x0A], [CHR 0x0B], [CHR 0x0C], [CHR 0x0D], [CHR 0x20],
     [CHR 0xC2, CHR 0x85], [CHR 0xC2, CHR 0xA0], [CHR 0xE1, CHR 0x9A, CHR 0x80]] @
     map (\<lambda>n. [CHR 0xE2, CHR 0x80, char_of n]) ([0x80..<0x8B] @ [0xA8, 0xA9, 0xAF :: nat]) @
     [[CHR 0xE2, CHR 0x81, CHR 0x9F], [CHR 0xE3, CHR 0x80, CHR 0x80]]"

function trim_with :: "string list \<Rightarrow> string \<Rightarrow> string" where
  "trim_with ws s =
     (case List.find (\<lambda>w. w \<noteq> [] \<and> HasPrefix s w) ws of
        None \<Rightarrow> s
      | Some w \<Rightarrow> trim_with ws (drop (length w) s))"
  by pat_completeness auto
termination
proof (relation "measure (\<lambda>(ws, s). length s)", goal_cases)
  case (2 ws s w)
  then have "w \<noteq> []" "HasPrefix s w" by (auto simp: find_Some_iff)
  then show ?case by (auto simp: HasPrefix_iff)
qed simp

declare trim_with.simps [simp del]

definition TrimSpace :: "string \<Rightarrow> string" where
  "TrimSpace s = rev (trim_with (map rev white) (rev (trim_with white s)))"

text \<open>\<^verbatim>\<open>strings.Split\<close> by one byte: always one piece more than there are separators.\<close>

fun Split :: "string \<Rightarrow> char \<Rightarrow> string list" where
  "Split [] sep = [[]]"
| "Split (c # s) sep =
     (if c = sep then [] # Split s sep
      else case Split s sep of p # ps \<Rightarrow> (c # p) # ps | [] \<Rightarrow> [[c]])"

lemma Split_not_Nil [simp]: "Split s sep \<noteq> []"
  by (induction s) (auto split: list.splits)

fun join :: "char \<Rightarrow> string list \<Rightarrow> string" where
  "join sep [] = []"
| "join sep [p] = p"
| "join sep (p # ps) = p @ sep # join sep ps"

lemma Split_append: "sep \<notin> set p \<Longrightarrow> Split (p @ sep # s) sep = p # Split s sep"
  by (induction p) auto

lemma Split_single: "sep \<notin> set p \<Longrightarrow> Split p sep = [p]"
  by (induction p) auto

lemma Split_join: "ps \<noteq> [] \<Longrightarrow> \<forall>p \<in> set ps. sep \<notin> set p \<Longrightarrow> Split (join sep ps) sep = ps"
  by (induction sep ps rule: join.induct) (auto simp: Split_single Split_append)

lemma join_Split: "join sep (Split s sep) = s"
proof (induction s)
  case (Cons c s)
  then show ?case
    by (cases "Split s sep") (auto, (cases "tl (Split s sep)"; auto)+)
qed simp

lemma Split_pieces: "p \<in> set (Split s sep) \<Longrightarrow> sep \<notin> set p"
  by (induction s arbitrary: p) (auto split: list.splits if_splits)

lemma length_Split: "length (Split s sep) = Suc (count_list s sep)"
  by (induction s) (auto split: list.splits)

subsection \<open>Integers\<close>

text \<open>
  \<^verbatim>\<open>strconv.ParseUint\<close> in base 10 with 64 bits: a byte that is no digit is a syntax error unless the
  value had already left the range.
\<close>

datatype num_err = ErrSyntax | ErrRange

fun parse_uint :: "nat \<Rightarrow> string \<Rightarrow> num_err + nat" where
  "parse_uint n [] = Inr n"
| "parse_uint n (c # cs) =
     (case char_digit c of
        None \<Rightarrow> Inl ErrSyntax
      | Some d \<Rightarrow> if 10 * n + d \<ge> 2 ^ 64 then Inl ErrRange else parse_uint (10 * n + d) cs)"

text \<open>\<^verbatim>\<open>strconv.Atoi\<close>: the value, saturated on a range error and 0 on a syntax error, and the error.\<close>

definition Atoi :: "string \<Rightarrow> int \<times> num_err option" where
  "Atoi s =
     (let (neg, ds) = (case s of c # r \<Rightarrow> if c = CHR ''-'' then (True, r) else if c = CHR ''+'' then (False, r) else (False, s)
                              | [] \<Rightarrow> (False, s))
      in if ds = [] then (0, Some ErrSyntax)
         else case parse_uint 0 ds of
           Inl ErrSyntax \<Rightarrow> (0, Some ErrSyntax)
         | Inl ErrRange \<Rightarrow> (if neg then (- (2 ^ 63), Some ErrRange) else (2 ^ 63 - 1, Some ErrRange))
         | Inr n \<Rightarrow>
             if \<not> neg \<and> n \<ge> 2 ^ 63 then (2 ^ 63 - 1, Some ErrRange)
             else if neg \<and> n > 2 ^ 63 then (- (2 ^ 63), Some ErrRange)
             else (if neg then - int n else int n, None))"

end
