(* ===== verification/Go_Time.thy ===== *)
theory Go_Time
  imports Go_Strings "HOL-Library.Product_Lexorder"
begin

text \<open>
  Calendar dates and the part of \<^verbatim>\<open>time.Parse\<close> that the crawler's three date layouts use.
\<close>

subsection \<open>Calendar\<close>

definition is_leap :: "int \<Rightarrow> bool" where
  "is_leap y \<longleftrightarrow> y mod 4 = 0 \<and> (y mod 100 \<noteq> 0 \<or> y mod 400 = 0)"

definition days_in :: "nat \<Rightarrow> int \<Rightarrow> nat" where
  "days_in m y = (if m = 2 then (if is_leap y then 29 else 28) else if m \<in> {4, 6, 9, 11} then 30 else 31)"

definition leaps :: "int \<Rightarrow> int" where
  "leaps y = y div 4 - y div 100 + y div 400"

text \<open>Days from 1970-01-01 to a date.\<close>

definition civil_days :: "int \<Rightarrow> nat \<Rightarrow> nat \<Rightarrow> int" where
  "civil_days y m d =
     365 * (y - 1970) + leaps (y - 1) - leaps 1969 + int (sum_list (map (\<lambda>k. days_in k y) [1..<m])) + int d - 1"

definition time_Date :: "int \<Rightarrow> nat \<Rightarrow> nat \<Rightarrow> int \<Rightarrow> int \<Rightarrow> int \<Rightarrow> time" where
  "time_Date y m d hh mm ss = (civil_days y m d * 86400 + hh * 3600 + mm * 60 + ss) * time_Second"

subsection \<open>Layouts\<close>

text \<open>The chunks of a layout: literal text, then the element it stands before.\<close>

datatype std_chunk = stdMonth | stdLongMonth | stdDay | stdLongYear | stdZeroMonth | stdZeroDay

type_synonym layout = "(string \<times> std_chunk) list"

definition layout_short :: layout where \<comment> \<open>\<^verbatim>\<open>"Jan 2, 2006"\<close>\<close>
  "layout_short = [('''', stdMonth), ('' '', stdDay), ('', '', stdLongYear)]"

definition layout_long :: layout where \<comment> \<open>\<^verbatim>\<open>"January 2, 2006"\<close>\<close>
  "layout_long = [('''', stdLongMonth), ('' '', stdDay), ('', '', stdLongYear)]"

definition layout_iso :: layout where \<comment> \<open>\<^verbatim>\<open>"2006-01-02"\<close>\<close>
  "layout_iso = [('''', stdLongYear), (''-'', stdZeroMonth), (''-'', stdZeroDay)]"

definition longMonthNames :: "string list" where
  "longMonthNames = [''January'', ''February'', ''March'', ''April'', ''May'', ''June'', ''July'',
     ''August'', ''September'', ''October'', ''November'', ''December'']"

definition shortMonthNames :: "string list" where
  "shortMonthNames = map (take 3) longMonthNames"

subsection \<open>Parsing\<close>

text \<open>Literal text: a run of spaces in it matches any run of spaces, or the end of the value.\<close>

function skip :: "string \<Rightarrow> string \<Rightarrow> string option" where
  "skip v [] = Some v"
| "skip v (c # p) =
     (if c = CHR '' '' then
        (if v \<noteq> [] \<and> hd v \<noteq> CHR '' '' then None
         else skip (dropWhile (\<lambda>x. x = CHR '' '') v) (dropWhile (\<lambda>x. x = CHR '' '') p))
      else case v of [] \<Rightarrow> None | x # v' \<Rightarrow> if x = c then skip v' p else None)"
  by pat_completeness auto
termination
  by (relation "measure (length o snd)") (auto simp: less_Suc_eq_le length_dropWhile_le)

fun getnum :: "string \<Rightarrow> bool \<Rightarrow> (nat \<times> string) option" where
  "getnum [] fixed = None"
| "getnum (c # v) fixed =
     (case char_digit c of
        None \<Rightarrow> None
      | Some a \<Rightarrow>
          (case v of
             [] \<Rightarrow> if fixed then None else Some (a, v)
           | c' # v' \<Rightarrow>
               (case char_digit c' of
                  None \<Rightarrow> if fixed then None else Some (a, v)
                | Some b \<Rightarrow> Some (10 * a + b, v'))))"

text \<open>Month names are compared without regard to case, by setting the bit that tells the cases apart.\<close>

definition match_byte :: "char \<Rightarrow> char \<Rightarrow> bool" where
  "match_byte a b \<longleftrightarrow> a = b \<or>
     (let x = set_bit 5 (of_char a :: nat); y = set_bit 5 (of_char b) in x = y \<and> 97 \<le> x \<and> x \<le> 122)"

definition match_name :: "string \<Rightarrow> string \<Rightarrow> bool" where
  "match_name v name \<longleftrightarrow> length v \<ge> length name \<and> list_all2 match_byte (take (length name) v) name"

fun lookup_month :: "nat \<Rightarrow> string list \<Rightarrow> string \<Rightarrow> (nat \<times> string) option" where
  "lookup_month i [] v = None"
| "lookup_month i (name # tab) v =
     (if match_name v name then Some (i, drop (length name) v) else lookup_month (Suc i) tab v)"

record ymd =
  yr :: int
  mon :: nat
  dy :: nat

text \<open>Dates are ordered by year, then month, then day.\<close>

instantiation ymd_ext :: (linorder) linorder
begin

definition less_eq_ymd_ext :: "'a ymd_ext \<Rightarrow> 'a ymd_ext \<Rightarrow> bool" where
  "less_eq_ymd_ext s t \<longleftrightarrow> (yr s, mon s, dy s, ymd.more s) \<le> (yr t, mon t, dy t, ymd.more t)"

definition less_ymd_ext :: "'a ymd_ext \<Rightarrow> 'a ymd_ext \<Rightarrow> bool" where
  "less_ymd_ext s t \<longleftrightarrow> (yr s, mon s, dy s, ymd.more s) < (yr t, mon t, dy t, ymd.more t)"

instance
  by standard (auto simp: less_eq_ymd_ext_def less_ymd_ext_def intro: ymd.equality)

end

definition parse_chunk :: "std_chunk \<Rightarrow> string \<Rightarrow> ymd \<Rightarrow> (ymd \<times> string) option" where
  "parse_chunk c v t =
     (case c of
        stdMonth \<Rightarrow> map_option (\<lambda>(m, r). (t\<lparr>mon := m\<rparr>, r)) (lookup_month 1 shortMonthNames v)
      | stdLongMonth \<Rightarrow> map_option (\<lambda>(m, r). (t\<lparr>mon := m\<rparr>, r)) (lookup_month 1 longMonthNames v)
      | stdDay \<Rightarrow> map_option (\<lambda>(d, r). (t\<lparr>dy := d\<rparr>, r)) (getnum v False)
      | stdZeroDay \<Rightarrow> map_option (\<lambda>(d, r). (t\<lparr>dy := d\<rparr>, r)) (getnum v True)
      | stdZeroMonth \<Rightarrow>
          (case getnum v True of
             None \<Rightarrow> None
           | Some (m, r) \<Rightarrow> if m = 0 \<or> 12 < m then None else Some (t\<lparr>mon := m\<rparr>, r))
      | stdLongYear \<Rightarrow>
          (if length v < 4 then None
           else map_option (\<lambda>y. (t\<lparr>yr := int y\<rparr>, drop 4 v)) (read_nat (take 4 v))))"

fun parse_layout :: "layout \<Rightarrow> string \<Rightarrow> ymd \<Rightarrow> ymd option" where
  "parse_layout [] v t = (if v = [] then Some t else None)"
| "parse_layout ((lit, c) # l) v t =
     (case skip v lit of
        None \<Rightarrow> None
      | Some v1 \<Rightarrow> (case parse_chunk c v1 t of None \<Rightarrow> None | Some (t', v2) \<Rightarrow> parse_layout l v2 t'))"

definition time_Parse :: "layout \<Rightarrow> string \<Rightarrow> time option" where
  "time_Parse l v =
     (case parse_layout l v \<lparr>yr = 0, mon = 0, dy = 0\<rparr> of
        None \<Rightarrow> None
      | Some t \<Rightarrow>
          if 1 \<le> dy t \<and> dy t \<le> days_in (mon t) (yr t) then Some (time_Date (yr t) (mon t) (dy t) 0 0 0)
          else None)"

subsection \<open>Printed dates parse back\<close>

definition pad :: "nat \<Rightarrow> nat \<Rightarrow> string" where
  "pad w n = replicate (w - length (dec_nat n)) (CHR ''0'') @ dec_nat n"

definition valid_date :: "nat \<Rightarrow> nat \<Rightarrow> nat \<Rightarrow> bool" where
  "valid_date y m d \<longleftrightarrow> y \<le> 9999 \<and> 1 \<le> m \<and> m \<le> 12 \<and> 1 \<le> d \<and> d \<le> days_in m (int y)"

definition show_short :: "nat \<Rightarrow> nat \<Rightarrow> nat \<Rightarrow> string" where
  "show_short y m d = shortMonthNames ! (m - 1) @ '' '' @ dec_nat d @ '', '' @ pad 4 y"

definition show_long :: "nat \<Rightarrow> nat \<Rightarrow> nat \<Rightarrow> string" where
  "show_long y m d = longMonthNames ! (m - 1) @ '' '' @ dec_nat d @ '', '' @ pad 4 y"

definition show_iso :: "nat \<Rightarrow> nat \<Rightarrow> nat \<Rightarrow> string" where
  "show_iso y m d = pad 4 y @ ''-'' @ pad 2 m @ ''-'' @ pad 2 d"

lemma length_dec_nat: "0 < k \<Longrightarrow> n < 10 ^ k \<Longrightarrow> length (dec_nat n) \<le> k"
proof (induction n arbitrary: k rule: dec_nat.induct)
  case (1 n)
  show ?case
  proof (cases "n < 10")
    case True
    then show ?thesis using 1 by (simp add: dec_nat.simps [of n])
  next
    case False
    then obtain j where "k = Suc j" "0 < j" using 1 by (cases k; cases "k - 1") auto
    with 1 False show ?thesis
      by (simp add: dec_nat.simps [of n] div_less_iff_less_mult)
  qed
qed

lemma read_digits_zeros: "read_digits 0 (replicate k (CHR ''0'') @ cs) = read_digits 0 cs"
  by (induction k) (simp_all add: char_digit_def)

lemma length_pad [simp]: "0 < w \<Longrightarrow> n < 10 ^ w \<Longrightarrow> length (pad w n) = w"
  using length_dec_nat [of w n] by (simp add: pad_def)

lemma read_nat_pad [simp]: "read_nat (pad w n) = Some n"
  by (simp add: read_nat_def pad_def read_digits_zeros)

lemma zero_char: "CHR ''0'' = char_of (48 :: nat)"
proof -
  have "CHR ''0'' = char_of (of_char (CHR ''0'') :: nat)" by (rule char_of_char [symmetric])
  then show ?thesis by simp
qed

lemma pad_2: "n < 100 \<Longrightarrow> pad 2 n = [digit_char (n div 10), digit_char (n mod 10)]"
  by (auto simp: pad_def dec_nat.simps [of n] dec_nat.simps [of "n div 10"] digit_char_def zero_char)

lemma dec_nat_2: "n < 100 \<Longrightarrow> dec_nat n = (if n < 10 then [digit_char n] else [digit_char (n div 10), digit_char (n mod 10)])"
  by (auto simp: dec_nat.simps [of n] dec_nat.simps [of "n div 10"])

lemma getnum_pad [simp]: "n < 100 \<Longrightarrow> getnum (pad 2 n @ r) b = Some (n, r)"
  by (simp add: pad_2)

lemma getnum_dec [simp]: "n < 100 \<Longrightarrow> getnum (dec_nat n @ CHR '','' # r) False = Some (n, CHR '','' # r)"
  by (simp add: dec_nat_2 char_digit_def [of "CHR '',''"])

lemma days_in_less: "days_in m y < 100"
  by (simp add: days_in_def)

lemma month_cases:
  assumes "1 \<le> m" "m \<le> (12 :: nat)"
  obtains "m = 1" | "m = 2" | "m = 3" | "m = 4" | "m = 5" | "m = 6" | "m = 7" | "m = 8" | "m = 9"
    | "m = 10" | "m = 11" | "m = 12"
proof -
  have "m = 1 \<or> m = 2 \<or> m = 3 \<or> m = 4 \<or> m = 5 \<or> m = 6 \<or> m = 7 \<or> m = 8 \<or> m = 9 \<or> m = 10 \<or> m = 11 \<or> m = 12"
    using assms by presburger
  with that show thesis by blast
qed

lemmas month_eval = shortMonthNames_def longMonthNames_def match_name_def match_byte_def Let_def set_bit_eq_or

lemma lookup_short:
  "1 \<le> m \<Longrightarrow> m \<le> 12 \<Longrightarrow> lookup_month 1 shortMonthNames (shortMonthNames ! (m - 1) @ r) = Some (m, r)"
  by (erule (1) month_cases) (simp_all add: month_eval)

lemma lookup_long:
  "1 \<le> m \<Longrightarrow> m \<le> 12 \<Longrightarrow> lookup_month 1 longMonthNames (longMonthNames ! (m - 1) @ r) = Some (m, r)"
  by (erule (1) month_cases) (simp_all add: month_eval)

lemma lookup_short_long:
  "1 \<le> m \<Longrightarrow> m \<le> 12 \<Longrightarrow> lookup_month 1 shortMonthNames (longMonthNames ! (m - 1) @ CHR '' '' # r) =
   Some (m, drop 3 (longMonthNames ! (m - 1)) @ CHR '' '' # r)"
  by (erule (1) month_cases) (simp_all add: month_eval)

lemma digit_no_match: "char_digit c = Some d \<Longrightarrow> char_digit x = None \<Longrightarrow> \<not> match_byte c x"
proof -
  assume "char_digit c = Some d" "char_digit x = None"
  then have n: "48 \<le> (of_char c :: nat)" "(of_char c :: nat) \<le> 57" "c \<noteq> x"
    by (auto simp: char_digit_def Let_def split: if_splits)
  then have "of_char c = (48 :: nat) \<or> of_char c = (49 :: nat) \<or> of_char c = (50 :: nat) \<or> of_char c = (51 :: nat) \<or>
      of_char c = (52 :: nat) \<or> of_char c = (53 :: nat) \<or> of_char c = (54 :: nat) \<or> of_char c = (55 :: nat) \<or>
      of_char c = (56 :: nat) \<or> of_char c = (57 :: nat)" by presburger
  with n(3) show ?thesis by (elim disjE) (simp_all add: match_byte_def Let_def set_bit_eq_or)
qed

lemma pad_digits: "c \<in> set (pad w n) \<Longrightarrow> \<exists>d. char_digit c = Some d"
  using dec_nat_digits [of c n] by (auto simp: pad_def char_digit_def split: if_splits)

lemma pad_Cons: "\<exists>c cs d. pad w n = c # cs \<and> char_digit c = Some d"
proof -
  obtain c cs where "pad w n = c # cs"
    by (cases "pad w n") (auto simp: pad_def)
  with pad_digits [of c w n] show ?thesis by auto
qed

lemma month_letters:
  "\<forall>name \<in> set longMonthNames. name \<noteq> [] \<and> char_digit (hd name) = None"
  "\<forall>name \<in> set shortMonthNames. name \<noteq> [] \<and> char_digit (hd name) = None"
  by (simp_all add: shortMonthNames_def longMonthNames_def char_digit_def)

lemma match_name_digit:
  "name \<noteq> [] \<Longrightarrow> char_digit (hd name) = None \<Longrightarrow> char_digit c = Some d \<Longrightarrow> \<not> match_name (c # v) name"
  by (cases name) (auto simp: match_name_def dest: digit_no_match)

lemma lookup_digit:
  "\<forall>name \<in> set tab. name \<noteq> [] \<and> char_digit (hd name) = None \<Longrightarrow> char_digit c = Some d \<Longrightarrow>
   lookup_month i tab (c # v) = None"
  by (induction tab arbitrary: i) (auto dest: match_name_digit)

lemma lookup_pad: "lookup_month 1 shortMonthNames (pad w n @ r) = None" "lookup_month 1 longMonthNames (pad w n @ r) = None"
proof -
  obtain c cs d where c: "pad w n = c # cs" "char_digit c = Some d" using pad_Cons by blast
  show "lookup_month 1 shortMonthNames (pad w n @ r) = None" "lookup_month 1 longMonthNames (pad w n @ r) = None"
    using lookup_digit [OF month_letters(1) c(2)] lookup_digit [OF month_letters(2) c(2)] by (simp_all add: c)
qed

lemma skip_lit: "CHR '' '' \<notin> set lit \<Longrightarrow> skip (lit @ v) lit = Some v"
  by (induction lit) auto

lemma skip_space: "v = [] \<or> hd v \<noteq> CHR '' '' \<Longrightarrow> skip (CHR '' '' # v) '' '' = Some v"
  by (cases v) auto

lemma hd_digit: "char_digit c = Some d \<Longrightarrow> c \<noteq> CHR '' '' \<and> c \<noteq> CHR '','' \<and> c \<noteq> CHR ''-''"
  by (auto simp: char_digit_def)

lemma skip_dec: "skip (CHR '' '' # dec_nat d @ r) '' '' = Some (dec_nat d @ r)"
  using dec_nat_digits [of "hd (dec_nat d)" d] hd_digit [of "hd (dec_nat d)"]
  by (intro skip_space) (cases "dec_nat d"; auto)

lemma skip_comma_pad: "skip (CHR '','' # CHR '' '' # pad w y @ r) '', '' = Some (pad w y @ r)"
proof -
  obtain c cs d where "pad w y = c # cs" "char_digit c = Some d" using pad_Cons by blast
  with hd_digit [of c d] show ?thesis by simp
qed

lemma year_chunk:
  "y \<le> 9999 \<Longrightarrow> parse_chunk stdLongYear (pad 4 y @ r) t = Some (t\<lparr>yr := int y\<rparr>, r)"
  by (simp add: parse_chunk_def)

lemma days_bound: "valid_date y m d \<Longrightarrow> d < 100"
  using days_in_less [of m "int y"] by (simp add: valid_date_def)

lemma parse_show_short:
  assumes "valid_date y m d"
  shows "time_Parse layout_short (show_short y m d) = Some (time_Date (int y) m d 0 0 0)"
proof -
  have "1 \<le> m" "m \<le> 12" "y \<le> 9999" "1 \<le> d" "d \<le> days_in m (int y)"
    using assms by (simp_all add: valid_date_def)
  moreover have "skip (CHR '','' # CHR '' '' # pad 4 y) '', '' = Some (pad 4 y)"
    using skip_comma_pad [of 4 y "[]"] by (simp del: skip.simps)
  moreover note days_bound [OF assms]
  ultimately show ?thesis
    by (simp add: time_Parse_def layout_short_def show_short_def parse_chunk_def lookup_short skip_dec
        del: One_nat_def skip.simps(2))
qed

lemma parse_show_long:
  assumes "valid_date y m d"
  shows "time_Parse layout_long (show_long y m d) = Some (time_Date (int y) m d 0 0 0)"
proof -
  have "1 \<le> m" "m \<le> 12" "y \<le> 9999" "1 \<le> d" "d \<le> days_in m (int y)"
    using assms by (simp_all add: valid_date_def)
  moreover have "skip (CHR '','' # CHR '' '' # pad 4 y) '', '' = Some (pad 4 y)"
    using skip_comma_pad [of 4 y "[]"] by (simp del: skip.simps)
  moreover note days_bound [OF assms]
  ultimately show ?thesis
    by (simp add: time_Parse_def layout_long_def show_long_def parse_chunk_def lookup_long skip_dec
        del: One_nat_def skip.simps(2))
qed

lemma parse_show_iso:
  assumes "valid_date y m d"
  shows "time_Parse layout_iso (show_iso y m d) = Some (time_Date (int y) m d 0 0 0)"
proof -
  have "1 \<le> m" "m \<le> 12" "y \<le> 9999" "1 \<le> d" "d \<le> days_in m (int y)"
    using assms by (simp_all add: valid_date_def)
  moreover have "getnum (pad 2 d) True = Some (d, [])"
    using getnum_pad [of d "[]" True] days_bound [OF assms] by simp
  ultimately show ?thesis
    by (simp add: time_Parse_def layout_iso_def show_iso_def parse_chunk_def del: One_nat_def)
qed

text \<open>The other layouts refuse a date, except that May is its own abbreviation.\<close>

lemma parse_short_long:
  assumes "valid_date y m d"
  shows "time_Parse layout_short (show_long y m d) = (if m = 5 then Some (time_Date (int y) m d 0 0 0) else None)"
proof (cases "m = 5")
  case True
  then have "show_long y m d = show_short y m d"
    by (simp add: show_long_def show_short_def shortMonthNames_def longMonthNames_def)
  with True parse_show_short [OF assms] show ?thesis by simp
next
  case False
  have m: "1 \<le> m" "m \<le> 12" using assms by (simp_all add: valid_date_def)
  then have "skip (drop 3 (longMonthNames ! (m - 1)) @ CHR '' '' # r) '' '' = None" for r
    using False by (elim month_cases) (simp_all add: longMonthNames_def)
  with lookup_short_long [OF m] False show ?thesis
    by (simp add: time_Parse_def layout_short_def show_long_def parse_chunk_def del: One_nat_def skip.simps(2))
qed

lemma parse_names_iso:
  "time_Parse layout_short (show_iso y m d) = None" "time_Parse layout_long (show_iso y m d) = None"
  using lookup_pad [of 4 y]
  by (simp_all add: time_Parse_def layout_short_def layout_long_def show_iso_def parse_chunk_def del: One_nat_def)

end
