(* ===== verification/Config.thy ===== *)
theory Config
  imports Go_Time Frontier
begin

text \<open>
  \<^verbatim>\<open>internal/config/config.go\<close> and the translation of the configuration into the frontier's in
  \<^verbatim>\<open>cmd/crawler/main.go\<close>. The environment is the function \<^verbatim>\<open>os.Getenv\<close> (the empty string for an unset
  variable) after godotenv has read the \<^verbatim>\<open>.env\<close> file.
\<close>

type_synonym env = "string \<Rightarrow> string"

record Config =
  Workers :: int
  BaseUrl :: string
  TestUrl :: string
  VideoPattern :: string
  TitleSuffix :: string
  OutputFile :: string
  RateLimit :: duration
  CutoffDate :: time
  RedisAddr :: string
  MongoURI :: string
  MongoDB :: string
  MongoCol :: string
  LoginURL :: string
  Username :: string
  Password :: string
  MetricsPort :: string
  StaticProxyURLs :: "string list"
  RotatingProxyURL :: string
  LeaseTimeoutSec :: int
  MaxStrikesCfg :: int
  SchedulerBatchLimitCfg :: int
  RateLimitBackoffSec :: "int list"
  StrikeBackoffSec :: "int list"
  ListingBaseTTLHours :: int
  SeedTTLHours :: int
  ListingMaxTTLHours :: int
  QuarantineListingHours :: int

definition getEnvStr :: "env \<Rightarrow> string \<Rightarrow> string \<Rightarrow> string" where
  "getEnvStr env k d = (if env k \<noteq> '''' then env k else d)"

definition getEnvInt :: "env \<Rightarrow> string \<Rightarrow> int \<Rightarrow> int" where
  "getEnvInt env k d =
     (let v = env k
      in if v = '''' then d
         else case Atoi v of (n, None) \<Rightarrow> n | (_, Some _) \<Rightarrow> d)"

text \<open>The loop over the parts: the first malformed one ends it without a result.\<close>

fun parse_ints :: "string list \<Rightarrow> int list option" where
  "parse_ints [] = Some []"
| "parse_ints (p # ps) =
     (case Atoi (TrimSpace p) of
        (n, None) \<Rightarrow> map_option (\<lambda>ns. n # ns) (parse_ints ps)
      | (_, Some _) \<Rightarrow> None)"

definition getEnvIntSlice :: "env \<Rightarrow> string \<Rightarrow> int list \<Rightarrow> int list" where
  "getEnvIntSlice env k d =
     (let raw = env k
      in if raw = '''' then d
         else case parse_ints (Split raw (CHR '','')) of None \<Rightarrow> d | Some ns \<Rightarrow> ns)"

definition Load :: "env \<Rightarrow> Config" where
  "Load env =
     (let staticURLs = (if env ''STATIC_PROXY_URLS'' \<noteq> '''' then Split (env ''STATIC_PROXY_URLS'') (CHR '','') else []);
          redisAddr = (if env ''REDIS_ADDR'' \<noteq> '''' then env ''REDIS_ADDR'' else ''localhost:6379'');
          mongoURI = (if env ''MONGO_URI'' \<noteq> '''' then env ''MONGO_URI'' else ''mongodb://localhost:27017'');
          username = env ''VIDLII_USERNAME'';
          password = env ''VIDLII_PASSWORD''
      in \<lparr>Workers = getEnvInt env ''WORKERS'' 20,
          BaseUrl = ''https://www.vidlii.com'',
          TestUrl = getEnvStr env ''TEST_URL'' ''https://www.vidlii.com/user/rinkomania'',
          VideoPattern = ''/watch?v='',
          TitleSuffix = '' - VidLii'',
          OutputFile = ''targets.json'',
          RateLimit = wrap64 (getEnvInt env ''RATE_LIMIT_SEC'' 15 * time_Second),
          CutoffDate = time_Date 2023 12 31 23 59 59,
          RedisAddr = redisAddr,
          MongoURI = mongoURI,
          MongoDB = ''vidlii'',
          MongoCol = ''videos'',
          LoginURL = ''https://www.vidlii.com/login'',
          Username = username,
          Password = password,
          MetricsPort = ''2112'',
          StaticProxyURLs = staticURLs,
          RotatingProxyURL = env ''ROTATING_PROXY_URL'',
          LeaseTimeoutSec = getEnvInt env ''LEASE_TIMEOUT_SEC'' 600,
          MaxStrikesCfg = getEnvInt env ''MAX_STRIKES'' 5,
          SchedulerBatchLimitCfg = getEnvInt env ''SCHEDULER_BATCH_LIMIT'' 100,
          RateLimitBackoffSec = getEnvIntSlice env ''RATE_LIMIT_BACKOFF_SEC'' [300, 900, 2700],
          StrikeBackoffSec = getEnvIntSlice env ''STRIKE_BACKOFF_SEC'' [60, 300, 1500],
          ListingBaseTTLHours = getEnvInt env ''LISTING_BASE_TTL_HOURS'' 72,
          SeedTTLHours = getEnvInt env ''SEED_TTL_HOURS'' 24,
          ListingMaxTTLHours = getEnvInt env ''LISTING_MAX_TTL_HOURS'' (21 * 24),
          QuarantineListingHours = getEnvInt env ''QUARANTINE_LISTING_HOURS'' (7 * 24)\<rparr>)"

text \<open>\<^verbatim>\<open>time.Duration(n) * time.Hour\<close> is a product of 64-bit integers.\<close>

definition frontierConfig :: "Config \<Rightarrow> FrontierConfig" where
  "frontierConfig c =
     \<lparr>LeaseTimeout = wrap64 (LeaseTimeoutSec c * time_Second),
      MaxStrikes = MaxStrikesCfg c,
      RateLimitBackoff = RateLimitBackoffSec c,
      StrikeBackoff = StrikeBackoffSec c,
      ListingBaseTTL = wrap64 (ListingBaseTTLHours c * time_Hour),
      SeedTTL = wrap64 (SeedTTLHours c * time_Hour),
      ListingMaxTTL = wrap64 (ListingMaxTTLHours c * time_Hour),
      QuarantineListing = wrap64 (QuarantineListingHours c * time_Hour),
      SchedulerBatchLimit = SchedulerBatchLimitCfg c\<rparr>"

subsection \<open>Integers from text\<close>

lemma read_digits_mono: "read_digits n s = Some m \<Longrightarrow> n \<le> m"
proof (induction n s rule: read_digits.induct)
  case (2 acc c cs)
  then obtain d where "char_digit c = Some d" "read_digits (10 * acc + d) cs = Some m"
    by (auto split: option.splits)
  with 2 show ?case by fastforce
qed simp

lemma parse_uint_digits: "read_digits n s = Some m \<Longrightarrow> m < 2 ^ 64 \<Longrightarrow> parse_uint n s = Inr m"
proof (induction n s rule: parse_uint.induct)
  case (2 n c cs)
  then obtain d where d: "char_digit c = Some d" "read_digits (10 * n + d) cs = Some m"
    by (auto split: option.splits)
  with read_digits_mono [OF d(2)] 2 show ?case by simp
qed simp

lemma Atoi_dec: "- (2 ^ 63) \<le> n \<Longrightarrow> n < 2 ^ 63 \<Longrightarrow> Atoi (dec n) = (n, None)"
proof -
  assume n: "- (2 ^ 63) \<le> n" "n < 2 ^ 63"
  show ?thesis
  proof (cases "n < 0")
    case True
    with n parse_uint_digits [OF read_digits_dec_nat, of "nat (- n)"] show ?thesis
      by (simp add: Atoi_def dec_def)
  next
    case False
    obtain c ds where cs: "dec_nat (nat n) = c # ds" by (cases "dec_nat (nat n)") auto
    have "char_digit c \<noteq> None" using dec_nat_digits [of c "nat n"] cs by simp
    then have "c \<noteq> CHR ''-''" "c \<noteq> CHR ''+''" by (auto simp: char_digit_def)
    with n False cs parse_uint_digits [OF read_digits_dec_nat, of "nat n"] show ?thesis
      by (simp add: Atoi_def dec_def)
  qed
qed

lemma Atoi_range: "Atoi s = (n, None) \<Longrightarrow> - (2 ^ 63) \<le> n \<and> n < 2 ^ 63"
  by (auto simp: Atoi_def Let_def split: prod.splits if_splits sum.splits num_err.splits)

text \<open>Trimming leaves a string alone that begins and ends with bytes of no white space.\<close>

lemma trim_with_id: "s = [] \<or> hd s \<notin> hd ` set ws \<Longrightarrow> trim_with ws s = s"
proof -
  assume s: "s = [] \<or> hd s \<notin> hd ` set ws"
  have "List.find (\<lambda>w. w \<noteq> [] \<and> HasPrefix s w) ws = None"
    unfolding find_None_iff using s by (force simp: HasPrefix_iff)
  then show ?thesis by (simp add: trim_with.simps)
qed

definition plain :: "char \<Rightarrow> bool" where
  "plain c \<longleftrightarrow> c \<notin> hd ` set white \<and> c \<notin> hd ` rev ` set white"

lemma TrimSpace_plain: "s \<noteq> [] \<Longrightarrow> plain (hd s) \<Longrightarrow> plain (last s) \<Longrightarrow> TrimSpace s = s"
  by (simp add: TrimSpace_def trim_with_id plain_def hd_rev)

lemma white_bytes: "hd ` set white \<union> hd ` rev ` set white \<subseteq>
  {CHR 0x09, CHR 0x0A, CHR 0x0B, CHR 0x0C, CHR 0x0D, CHR 0x20, CHR 0xC2, CHR 0xE1, CHR 0xE2, CHR 0xE3} \<union>
  {c. 128 \<le> (of_char c :: nat)}"
  by (auto simp: white_def take_bit_eq_mod)

lemma plain_ascii: "33 \<le> (of_char c :: nat) \<Longrightarrow> (of_char c :: nat) < 128 \<Longrightarrow> plain c"
  using white_bytes unfolding plain_def by fastforce

lemma plain_digit: "char_digit c \<noteq> None \<Longrightarrow> plain c"
  by (rule plain_ascii) (auto simp: char_digit_def Let_def split: if_splits)

lemma TrimSpace_dec [simp]: "TrimSpace (dec n) = dec n"
proof (rule TrimSpace_plain)
  have digits: "dec_nat k \<noteq> []" "plain (hd (dec_nat k))" "plain (last (dec_nat k))" for k
    using dec_nat_digits [of _ k] by (auto intro!: plain_digit)
  have "plain (CHR ''-'')" by (rule plain_ascii) simp_all
  with digits show "dec n \<noteq> []" "plain (hd (dec n))" "plain (last (dec n))"
    by (auto simp: dec_def)
qed

subsection \<open>Properties\<close>

text \<open>
  The two sets of defaults agree. When none of the frontier's variables is set, the configuration
  main.go builds is exactly DefaultFrontierConfig.
\<close>

theorem config_defaults:
  assumes "\<forall>k \<in> {''LEASE_TIMEOUT_SEC'', ''MAX_STRIKES'', ''SCHEDULER_BATCH_LIMIT'', ''RATE_LIMIT_BACKOFF_SEC'',
    ''STRIKE_BACKOFF_SEC'', ''LISTING_BASE_TTL_HOURS'', ''SEED_TTL_HOURS'', ''LISTING_MAX_TTL_HOURS'',
    ''QUARANTINE_LISTING_HOURS''}. env k = ''''"
  shows "frontierConfig (Load env) = DefaultFrontierConfig"
  using assms
  by (simp add: frontierConfig_def Load_def Let_def getEnvInt_def getEnvIntSlice_def DefaultFrontierConfig_def
      wrap64_id time_Second_def time_Hour_def)

theorem config_defaults_witness: "frontierConfig (Load (\<lambda>_. '''')) = DefaultFrontierConfig"
  by (rule config_defaults) simp

lemma parse_ints_map:
  "parse_ints ps = (if \<exists>p \<in> set ps. snd (Atoi (TrimSpace p)) \<noteq> None then None
     else Some (map (\<lambda>p. fst (Atoi (TrimSpace p))) ps))"
  by (induction ps) (auto split: prod.splits option.splits)

text \<open>
  A list override is all or nothing. getEnvIntSlice answers the default when the variable is unset
  or any of its parts is no 64-bit integer, and otherwise one integer per comma-separated part, in
  order; it never applies an override partially.
\<close>

theorem slice_all_or_nothing:
  "getEnvIntSlice env k d =
     (if env k = '''' \<or> (\<exists>p \<in> set (Split (env k) (CHR '','')). snd (Atoi (TrimSpace p)) \<noteq> None) then d
      else map (\<lambda>p. fst (Atoi (TrimSpace p))) (Split (env k) (CHR '','')))"
  by (simp add: getEnvIntSlice_def Let_def parse_ints_map)

lemma comma_not_in_dec: "CHR '','' \<notin> set (dec n)"
proof -
  have "char_digit (CHR '','') = None" by (simp add: char_digit_def)
  then show ?thesis using not_in_dec_nat by (simp add: dec_def)
qed

lemma dec_not_Nil [simp]: "dec n \<noteq> []"
  by (simp add: dec_def)

lemma join_not_Nil: "ps \<noteq> [] \<Longrightarrow> \<forall>p \<in> set ps. p \<noteq> [] \<Longrightarrow> join c ps \<noteq> []"
  by (induction c ps rule: join.induct) auto

lemma parse_ints_dec:
  "\<forall>n \<in> set ns. - (2 ^ 63) \<le> n \<and> n < 2 ^ 63 \<Longrightarrow> parse_ints (map dec ns) = Some ns"
  by (induction ns) (simp_all add: Atoi_dec)

text \<open>
  C39: integers written into the environment are read back. A 64-bit integer in decimal notation is the
  value of getEnvInt, and a comma-separated list of them, printed in order, the value of getEnvIntSlice.
\<close>

theorem env_ints_roundtrip:
  assumes "ns \<noteq> []" and "\<forall>n \<in> set ns. - (2 ^ 63) \<le> n \<and> n < 2 ^ 63"
    and "env k = join (CHR '','') (map dec ns)"
  shows "getEnvIntSlice env k d = ns \<and> (length ns = 1 \<longrightarrow> getEnvInt env k d' = hd ns)"
proof -
  have "env k \<noteq> ''''" unfolding assms(3) by (rule join_not_Nil) (use assms(1) in auto)
  moreover have "Split (env k) (CHR '','') = map dec ns"
    unfolding assms(3) by (rule Split_join) (use assms(1) comma_not_in_dec in auto)
  moreover have "length ns = 1 \<longrightarrow> env k = dec (hd ns)"
    using assms(3) by (cases ns) auto
  moreover have "Atoi (dec (hd ns)) = (hd ns, None)"
    using assms(1,2) by (intro Atoi_dec) auto
  ultimately show ?thesis
    using parse_ints_dec [OF assms(2)] by (simp add: getEnvIntSlice_def getEnvInt_def Let_def)
qed

theorem env_ints_roundtrip_witness:
  "getEnvIntSlice (\<lambda>_. ''60,-5'') ''K'' [1] = [60, - 5]"
proof -
  have "''60,-5'' = join (CHR '','') (map dec [60, - 5])" by code_simp
  with env_ints_roundtrip [of "[60, - 5]" "\<lambda>_. ''60,-5''" "''K''" "[1]"] show ?thesis by simp
qed

lemma exact_duration:
  "0 \<le> n \<Longrightarrow> n * k < 2 ^ 63 \<Longrightarrow> 0 < k \<Longrightarrow> wrap64 (n * k) = n * k"
  by (rule wrap64_id) (auto intro: order_trans [of _ 0])

lemma go_div_hours: "0 \<le> n \<Longrightarrow> go_div (n * time_Hour) time_Second = n * 3600"
  by (simp add: go_div_nonneg time_Hour_def time_Second_def)

lemma go_div_seconds: "0 \<le> n \<Longrightarrow> go_div (n * time_Second) time_Second = n"
  by (simp add: go_div_nonneg time_Second_def)

text \<open>
  The seconds the scripts see. For a lease timeout up to 9223372036 seconds and TTLs up to 2562047 hours, the whole range
  in which the 64-bit products do not wrap, the scripts are handed exactly the configured seconds.
\<close>

theorem config_units:
  assumes "0 \<le> LeaseTimeoutSec c" "LeaseTimeoutSec c \<le> 9223372036"
    and "0 \<le> ListingBaseTTLHours c" "ListingBaseTTLHours c \<le> 2562047"
    and "0 \<le> SeedTTLHours c" "SeedTTLHours c \<le> 2562047"
    and "0 \<le> ListingMaxTTLHours c" "ListingMaxTTLHours c \<le> 2562047"
    and "0 \<le> QuarantineListingHours c" "QuarantineListingHours c \<le> 2562047"
  shows "go_div (LeaseTimeout (frontierConfig c)) time_Second = LeaseTimeoutSec c \<and>
    go_div (ListingBaseTTL (frontierConfig c)) time_Second = 3600 * ListingBaseTTLHours c \<and>
    go_div (SeedTTL (frontierConfig c)) time_Second = 3600 * SeedTTLHours c \<and>
    go_div (ListingMaxTTL (frontierConfig c)) time_Second = 3600 * ListingMaxTTLHours c \<and>
    QuarantineListing (frontierConfig c) = QuarantineListingHours c * time_Hour"
proof -
  have hours: "wrap64 (n * time_Hour) = n * time_Hour" if "0 \<le> n" "n \<le> 2562047" for n
    using that exact_duration [of n time_Hour] by (simp add: time_Hour_def time_Second_def)
  have "wrap64 (LeaseTimeoutSec c * time_Second) = LeaseTimeoutSec c * time_Second"
    using assms(1,2) exact_duration [of "LeaseTimeoutSec c" time_Second] by (simp add: time_Second_def)
  with assms hours show ?thesis
    by (simp add: frontierConfig_def go_div_hours go_div_seconds)
qed

theorem config_units_witness:
  "go_div (LeaseTimeout (frontierConfig (Load (\<lambda>k. if k = ''LEASE_TIMEOUT_SEC'' then ''30'' else '''')))) time_Second = 30"
proof -
  let ?env = "\<lambda>k. if k = ''LEASE_TIMEOUT_SEC'' then ''30'' else ''''"
  have "dec 30 = ''30''" by code_simp
  then have "Atoi ''30'' = (30, None)" using Atoi_dec [of 30] by simp
  then have "LeaseTimeoutSec (Load ?env) = 30" "ListingBaseTTLHours (Load ?env) = 72" "SeedTTLHours (Load ?env) = 24"
    "ListingMaxTTLHours (Load ?env) = 504" "QuarantineListingHours (Load ?env) = 168"
    by (simp_all add: Load_def Let_def getEnvInt_def)
  with config_units [of "Load ?env"] show ?thesis by simp
qed

text \<open>One second more and the product wraps to a negative timeout: every lease is born expired.\<close>

lemma lease_timeout_wraps: "LeaseTimeoutSec c = 9223372037 \<Longrightarrow> LeaseTimeout (frontierConfig c) < 0"
  by (simp add: frontierConfig_def wrap64_def time_Second_def)

end
