(* ===== verification/Metrics.thy ===== *)
theory Metrics
  imports Complex_Main Config
begin

text \<open>
  \<^verbatim>\<open>internal/metrics/metrics.go\<close>: the values of the crawler's metrics, the /stop handler and its
  loopback test, with the parsing of addresses that \<^verbatim>\<open>net.SplitHostPort\<close> and \<^verbatim>\<open>net.ParseIP\<close> do.
\<close>

text \<open>The counters, the observations of the histogram, and the gauges.\<close>

record Metrics =
  PagesProcessed :: int
  VideoFound :: int
  TargetsFound :: int
  Errors :: int
  FetchDuration :: int            \<comment> \<open>observations\<close>
  LeaseErrors :: int
  ResolveErrors :: int
  ReconcileErrors :: int
  ReapedTotal :: int
  SweptTotal :: int
  PromotedTotal :: int
  ListingsAdmittedTotal :: int
  FrontierReady :: int
  FrontierProcessing :: int
  FrontierDelayed :: int
  ListingsScheduled :: int
  ListingsPending :: int
  FrontierDead :: int
  FrontierStrikes :: int
  FrontierIdle :: int
  BloomFillRatio :: rat

definition zero_metrics :: Metrics where
  "zero_metrics = \<lparr>PagesProcessed = 0, VideoFound = 0, TargetsFound = 0, Errors = 0, FetchDuration = 0,
     LeaseErrors = 0, ResolveErrors = 0, ReconcileErrors = 0, ReapedTotal = 0, SweptTotal = 0,
     PromotedTotal = 0, ListingsAdmittedTotal = 0, FrontierReady = 0, FrontierProcessing = 0,
     FrontierDelayed = 0, ListingsScheduled = 0, ListingsPending = 0, FrontierDead = 0,
     FrontierStrikes = 0, FrontierIdle = 0, BloomFillRatio = 0\<rparr>"

subsection \<open>Addresses\<close>

text \<open>\<^verbatim>\<open>net.SplitHostPort\<close>: the host part of an address, None for its errors.\<close>

definition SplitHost :: "string \<Rightarrow> string option" where
  "SplitHost hp =
     (if CHR '':'' \<notin> set hp then None
      else let i = length hp - Suc (length (takeWhile (\<lambda>c. c \<noteq> CHR '':'') (rev hp)))
           in if hd hp = CHR ''['' then
                (if CHR '']'' \<notin> set hp then None
                 else let e = length (takeWhile (\<lambda>c. c \<noteq> CHR '']'') hp)
                      in if e + 1 \<noteq> i then None
                         else if CHR ''['' \<in> set (drop 1 hp) \<or> CHR '']'' \<in> set (drop (e + 1) hp) then None
                         else Some (take (e - 1) (drop 1 hp)))
              else if CHR '':'' \<in> set (take i hp) then None
              else if CHR ''['' \<in> set hp \<or> CHR '']'' \<in> set hp then None
              else Some (take i hp))"

definition parse_octet :: "string \<Rightarrow> nat option" where
  "parse_octet p =
     (if length p > 1 \<and> hd p = CHR ''0'' then None
      else case read_nat p of None \<Rightarrow> None | Some n \<Rightarrow> if n \<le> 255 then Some n else None)"

definition parse_ipv4 :: "string \<Rightarrow> nat list option" where
  "parse_ipv4 s =
     (case map parse_octet (Split s (CHR ''.'')) of
        [Some a, Some b, Some c, Some d] \<Rightarrow> Some [a, b, c, d]
      | _ \<Rightarrow> None)"

definition hex_digit :: "char \<Rightarrow> nat option" where
  "hex_digit c =
     (let n = of_char c :: nat
      in if 48 \<le> n \<and> n \<le> 57 then Some (n - 48)
         else if 97 \<le> n \<and> n \<le> 102 then Some (n - 87)
         else if 65 \<le> n \<and> n \<le> 70 then Some (n - 55)
         else None)"

definition hex_value :: "string \<Rightarrow> nat" where
  "hex_value s = foldl (\<lambda>n c. 16 * n + the (hex_digit c)) 0 s"

text \<open>
  The loop of \<^verbatim>\<open>parseIPv6\<close>: the bytes so far, the position of the ellipsis, and what is left to read.
\<close>

function ipv6_loop :: "nat list \<Rightarrow> nat option \<Rightarrow> string \<Rightarrow> (nat list \<times> nat option \<times> string) option" where
  "ipv6_loop ip ell s =
     (if length ip \<ge> 16 then Some (ip, ell, s)
      else let ds = takeWhile (\<lambda>c. hex_digit c \<noteq> None) s; rest = dropWhile (\<lambda>c. hex_digit c \<noteq> None) s
           in if ds = [] \<or> length ds > 4 then None
              else case rest of
                [] \<Rightarrow> Some (ip @ [hex_value ds div 256, hex_value ds mod 256], ell, [])
              | c # s1 \<Rightarrow>
                  if c = CHR ''.'' then
                    (if ell = None \<and> length ip \<noteq> 12 then None
                     else if length ip + 4 > 16 then None
                     else map_option (\<lambda>q. (ip @ q, ell, [])) (parse_ipv4 s))
                  else if c \<noteq> CHR '':'' then None
                  else let ip' = ip @ [hex_value ds div 256, hex_value ds mod 256]
                       in case s1 of
                         [] \<Rightarrow> None
                       | c1 # s2 \<Rightarrow>
                           if c1 = CHR '':'' then
                             (if ell \<noteq> None then None
                              else if s2 = [] then Some (ip', Some (length ip'), [])
                              else ipv6_loop ip' (Some (length ip')) s2)
                           else ipv6_loop ip' ell s1)"
  by pat_completeness auto
termination
proof (relation "measure (\<lambda>(ip, ell, s). length s)", goal_cases)
  case (2 ip ell s ds rest c s1 ip' c1 s2)
  then have "length (c # s1) \<le> length s" by (metis length_dropWhile_le)
  with 2 show ?case by simp
next
  case (3 ip ell s ds rest c s1 ip' c1 s2)
  then have "length (c # s1) \<le> length s" by (metis length_dropWhile_le)
  with 3 show ?case by simp
qed simp

declare ipv6_loop.simps [simp del]

definition parse_ipv6 :: "string \<Rightarrow> nat list option" where
  "parse_ipv6 s =
     (let (ell, s1) = (if HasPrefix s ''::'' then (Some 0, drop 2 s) else (None, s))
      in if ell \<noteq> None \<and> s1 = [] then Some (replicate 16 0)
         else case ipv6_loop [] ell s1 of
           None \<Rightarrow> None
         | Some (ip, ell', rest) \<Rightarrow>
             if rest \<noteq> [] then None
             else if length ip < 16 then
               (case ell' of
                  None \<Rightarrow> None
                | Some e \<Rightarrow> Some (take e ip @ replicate (16 - length ip) 0 @ drop e ip))
             else if ell' \<noteq> None then None else Some ip)"

text \<open>
  \<^verbatim>\<open>net.ParseIP\<close>: sixteen bytes, an IPv4 address in its mapped form. The first dot or colon tells which
  notation it is; an address with a zone is none.
\<close>

definition ParseIP :: "string \<Rightarrow> nat list option" where
  "ParseIP s =
     (if CHR ''%'' \<in> set s then None
      else case List.find (\<lambda>c. c = CHR ''.'' \<or> c = CHR '':'') s of
        None \<Rightarrow> None
      | Some c \<Rightarrow>
          if c = CHR ''.'' then map_option (\<lambda>q. replicate 10 0 @ [255, 255] @ q) (parse_ipv4 s)
          else parse_ipv6 s)"

definition IsLoopback :: "nat list \<Rightarrow> bool" where
  "IsLoopback ip \<longleftrightarrow>
     (if take 12 ip = replicate 10 0 @ [255, 255] then ip ! 12 = 127 else ip = replicate 15 0 @ [1])"

definition isLoopback :: "string \<Rightarrow> bool" where
  "isLoopback addr =
     (let host = (case SplitHost addr of None \<Rightarrow> addr | Some h \<Rightarrow> h)
      in case ParseIP host of None \<Rightarrow> False | Some ip \<Rightarrow> IsLoopback ip)"

text \<open>The /stop handler: the status it answers and whether it calls stopFn.\<close>

definition stop_handler :: "string \<Rightarrow> string \<Rightarrow> nat \<times> bool" where
  "stop_handler meth remoteAddr =
     (if meth \<noteq> ''POST'' then (405, False)
      else if \<not> isLoopback remoteAddr then (403, False)
      else (202, True))"

subsection \<open>Who can stop the crawl\<close>

definition show_ipv4 :: "nat \<Rightarrow> nat \<Rightarrow> nat \<Rightarrow> nat \<Rightarrow> string" where
  "show_ipv4 a b c d = join (CHR ''.'') (map dec_nat [a, b, c, d])"

lemma dec_nat_no_zero: "length (dec_nat n) > 1 \<Longrightarrow> hd (dec_nat n) \<noteq> CHR ''0''"
proof (induction n rule: dec_nat.induct)
  case (1 n)
  show ?case
  proof (cases "n < 10")
    case True
    with 1 show ?thesis by (simp add: dec_nat.simps [of n])
  next
    case False
    have hd: "hd (dec_nat n) = hd (dec_nat (n div 10))"
      using False by (simp add: dec_nat.simps [of n])
    show ?thesis
    proof (cases "n div 10 < 10")
      case True
      have "digit_char k \<noteq> CHR ''0''" if "0 < k" "k < 10" for k
        using that char_digit_digit_char [of k] by (auto simp: char_digit_def)
      moreover have "0 < n div 10" using False by simp
      ultimately show ?thesis using True hd by (simp add: dec_nat.simps [of "n div 10"])
    next
      case big: False
      then have "length (dec_nat (n div 10)) > 1" by (simp add: dec_nat.simps [of "n div 10"])
      with 1 False hd show ?thesis by simp
    qed
  qed
qed

lemma parse_octet_dec: "n \<le> 255 \<Longrightarrow> parse_octet (dec_nat n) = Some n"
  using dec_nat_no_zero [of n] by (simp add: parse_octet_def read_nat_def)

lemma dec_nat_clean: "char_digit x = None \<Longrightarrow> x \<notin> set (dec_nat n)"
  by (rule not_in_dec_nat)

lemma not_digits: "char_digit (CHR ''.'') = None" "char_digit (CHR '':'') = None" "char_digit (CHR ''['') = None"
  "char_digit (CHR '']'') = None" "char_digit (CHR ''%'') = None"
  by (simp_all add: char_digit_def)

lemma parse_ipv4_show: "a \<le> 255 \<Longrightarrow> b \<le> 255 \<Longrightarrow> c \<le> 255 \<Longrightarrow> d \<le> 255 \<Longrightarrow>
  parse_ipv4 (show_ipv4 a b c d) = Some [a, b, c, d]"
  unfolding parse_ipv4_def show_ipv4_def
  by (subst Split_join) (auto simp: dec_nat_clean not_digits parse_octet_dec)

lemma takeWhile_stop: "x \<notin> set xs \<Longrightarrow> takeWhile (\<lambda>c. c \<noteq> x) (xs @ x # ys) = xs"
  by (induction xs) auto

lemma SplitHost_plain:
  assumes "set h \<inter> {CHR '':'', CHR ''['', CHR '']''} = {}" "set p \<inter> {CHR '':'', CHR ''['', CHR '']''} = {}" "h \<noteq> []"
  shows "SplitHost (h @ CHR '':'' # p) = Some h"
proof -
  have "takeWhile (\<lambda>c. c \<noteq> CHR '':'') (rev (h @ CHR '':'' # p)) = rev p"
    using assms(2) by (simp add: takeWhile_stop)
  moreover have "hd h \<noteq> CHR ''[''" using assms(1,3) by (cases h) auto
  ultimately show ?thesis using assms by (auto simp: SplitHost_def Let_def)
qed

lemma show_ipv4_bytes: "x \<in> set (show_ipv4 a b c d) \<Longrightarrow> x = CHR ''.'' \<or> char_digit x \<noteq> None"
  using dec_nat_digits by (auto simp: show_ipv4_def)

lemma show_ipv4_clean: "char_digit x = None \<Longrightarrow> x \<noteq> CHR ''.'' \<Longrightarrow> x \<notin> set (show_ipv4 a b c d)"
  using show_ipv4_bytes by metis

lemma show_ipv4_dot: "List.find (\<lambda>x. x = CHR ''.'' \<or> x = CHR '':'') (show_ipv4 a b c d @ r) = Some (CHR ''.'')"
proof -
  have "List.find (\<lambda>x. x = CHR ''.'' \<or> x = CHR '':'') (xs @ CHR ''.'' # ys) = Some (CHR ''.'')"
    if "CHR ''.'' \<notin> set xs" "CHR '':'' \<notin> set xs" for xs ys
    using that by (induction xs) auto
  from this [of "dec_nat a"] show ?thesis
    by (simp add: show_ipv4_def dec_nat_clean not_digits)
qed

lemma loopback_ipv4:
  assumes "a \<le> 255" "b \<le> 255" "c \<le> 255" "d \<le> 255"
  shows "isLoopback (show_ipv4 a b c d @ CHR '':'' # dec_nat port) \<longleftrightarrow> a = 127"
proof -
  have "SplitHost (show_ipv4 a b c d @ CHR '':'' # dec_nat port) = Some (show_ipv4 a b c d)"
  proof (rule SplitHost_plain)
    show "show_ipv4 a b c d \<noteq> []" by (simp add: show_ipv4_def)
  qed (auto simp: show_ipv4_clean dec_nat_clean not_digits)
  moreover have "ParseIP (show_ipv4 a b c d) = Some (replicate 10 0 @ [255, 255, a, b, c, d])"
    using show_ipv4_dot [of a b c d "[]"] show_ipv4_clean [of "CHR ''%''"] assms
    by (simp add: ParseIP_def not_digits parse_ipv4_show)
  moreover have "IsLoopback (replicate 10 0 @ [255, 255, a, b, c, d]) \<longleftrightarrow> a = 127"
    by (simp add: IsLoopback_def numeral_eq_Suc)
  ultimately show ?thesis by (simp add: isLoopback_def)
qed



end
