(* ===== verification/World.thy ===== *)
theory World
  imports Metrics Frontier "HOL-Library.Stream"
begin

text \<open>
  What the goroutines of the crawler share: the frontier's state behind its interface, the metrics, and
  the context whose cancel function is handed around as \<^verbatim>\<open>stopFn\<close>. The clock is the stream of the
  instants that the calls of \<^verbatim>\<open>time.Now()\<close> still to come will return.
\<close>

record 's world =
  fstate :: 's
  metrics :: Metrics
  stopped :: bool           \<comment> \<open>cancel has been called\<close>
  clock :: "time stream"

definition stopFn :: "('s, 'a) world_scheme \<Rightarrow> ('s, 'a) world_scheme" where
  "stopFn w = w\<lparr>stopped := True\<rparr>"

text \<open>One call of the frontier, at the instant its own reading of the clock gives.\<close>

definition fcall ::
  "(time \<Rightarrow> 's \<Rightarrow> 'r \<times> 's) \<Rightarrow> ('s, 'a) world_scheme \<Rightarrow> 'r \<times> ('s, 'a) world_scheme" where
  "fcall op w = (let (r, s') = op (shd (clock w)) (fstate w) in (r, w\<lparr>fstate := s', clock := stl (clock w)\<rparr>))"

text \<open>A change of the metrics.\<close>

definition meter :: "(Metrics \<Rightarrow> Metrics) \<Rightarrow> ('s, 'a) world_scheme \<Rightarrow> ('s, 'a) world_scheme" where
  "meter f w = w\<lparr>metrics := f (metrics w)\<rparr>"

abbreviation Inc :: "((int \<Rightarrow> int) \<Rightarrow> Metrics \<Rightarrow> Metrics) \<Rightarrow> ('s, 'a) world_scheme \<Rightarrow> ('s, 'a) world_scheme" where
  "Inc upd \<equiv> meter (upd (\<lambda>n. n + 1))"

abbreviation Add :: "((int \<Rightarrow> int) \<Rightarrow> Metrics \<Rightarrow> Metrics) \<Rightarrow> int \<Rightarrow> ('s, 'a) world_scheme \<Rightarrow> ('s, 'a) world_scheme" where
  "Add upd k \<equiv> meter (upd (\<lambda>n. n + k))"

lemma meter_simps [simp]:
  "fstate (meter f w) = fstate w" "stopped (meter f w) = stopped w" "clock (meter f w) = clock w"
  "metrics (meter f w) = f (metrics w)" "world.more (meter f w) = world.more w"
  by (simp_all add: meter_def)

lemma stopFn_simps [simp]:
  "fstate (stopFn w) = fstate w" "stopped (stopFn w)" "clock (stopFn w) = clock w" "metrics (stopFn w) = metrics w"
  "world.more (stopFn w) = world.more w"
  by (simp_all add: stopFn_def)

lemma fcall_result: "fcall op w = (r, w') \<Longrightarrow> op (shd (clock w)) (fstate w) = (r, fstate w')"
  by (auto simp: fcall_def split: prod.splits)

lemma fcall_frame: "fcall op w = (r, w') \<Longrightarrow>
  metrics w' = metrics w \<and> stopped w' = stopped w \<and> clock w' = stl (clock w) \<and> world.more w' = world.more w"
  by (auto simp: fcall_def split: prod.splits)

lemma sset_stl: "x \<in> sset (stl s) \<Longrightarrow> x \<in> sset s"
  by (metis insert_iff stream.collapse stream.set)

lemma shd_sset: "shd s \<in> sset s"
  by (metis insertI1 stream.collapse stream.set)

end
