(* ===== verification/Video.thy ===== *)
theory Video
  imports Go_Time
begin

text \<open>
  \<^verbatim>\<open>internal/model/video.go\<close>: the stored video and the conditions that make it a target. The Unicode
  tables the code consults (\<^verbatim>\<open>unicode.Han\<close> and the like) are data of the Go release and a parameter
  here; ranging over a string decodes UTF-8, an ill-formed byte giving U+FFFD.
\<close>

subsection \<open>Runes of a string\<close>

definition cont :: "nat \<Rightarrow> bool" where
  "cont b \<longleftrightarrow> 0x80 \<le> b \<and> b \<le> 0xBF"

definition RuneError :: nat where "RuneError = 0xFFFD"

text \<open>One rune and the number of bytes it takes.\<close>

definition DecodeRune :: "nat list \<Rightarrow> nat \<times> nat" where
  "DecodeRune bs =
     (case bs of
        [] \<Rightarrow> (RuneError, 0)
      | b # bs1 \<Rightarrow>
          if b < 0x80 then (b, 1)
          else if 0xC2 \<le> b \<and> b \<le> 0xDF then
            (case bs1 of
               c # _ \<Rightarrow> if cont c then ((b - 0xC0) * 64 + (c - 0x80), 2) else (RuneError, 1)
             | _ \<Rightarrow> (RuneError, 1))
          else if 0xE0 \<le> b \<and> b \<le> 0xEF then
            (case bs1 of
               c # d # _ \<Rightarrow>
                 if cont c \<and> cont d \<and> (b = 0xE0 \<longrightarrow> 0xA0 \<le> c) \<and> (b = 0xED \<longrightarrow> c \<le> 0x9F)
                 then ((b - 0xE0) * 4096 + (c - 0x80) * 64 + (d - 0x80), 3) else (RuneError, 1)
             | _ \<Rightarrow> (RuneError, 1))
          else if 0xF0 \<le> b \<and> b \<le> 0xF4 then
            (case bs1 of
               c # d # e # _ \<Rightarrow>
                 if cont c \<and> cont d \<and> cont e \<and> (b = 0xF0 \<longrightarrow> 0x90 \<le> c) \<and> (b = 0xF4 \<longrightarrow> c \<le> 0x8F)
                 then ((b - 0xF0) * 262144 + (c - 0x80) * 4096 + (d - 0x80) * 64 + (e - 0x80), 4)
                 else (RuneError, 1)
             | _ \<Rightarrow> (RuneError, 1))
          else (RuneError, 1))"

lemma DecodeRune_size: "bs \<noteq> [] \<Longrightarrow> 1 \<le> snd (DecodeRune bs)"
  by (auto simp: DecodeRune_def split: list.split)

function decode_runes :: "nat list \<Rightarrow> nat list" where
  "decode_runes bs =
     (if bs = [] then [] else let (r, n) = DecodeRune bs in r # decode_runes (drop n bs))"
  by pat_completeness auto
termination
proof (relation "measure length", goal_cases)
  case (2 bs p r n)
  then show ?case using DecodeRune_size [of bs] by (cases "DecodeRune bs") simp
qed simp

declare decode_runes.simps [simp del]

definition runes :: "string \<Rightarrow> nat list" where
  "runes s = decode_runes (map of_char s)"

subsection \<open>Videos\<close>

record unicode_tables =
  Han :: "nat \<Rightarrow> bool"
  Hiragana :: "nat \<Rightarrow> bool"
  Katakana :: "nat \<Rightarrow> bool"
  Hangul :: "nat \<Rightarrow> bool"
  Letter :: "nat \<Rightarrow> bool"

definition DurationThreshold :: int where "DurationThreshold = 10 * 60 - 1"

record Video =
  vURL :: string
  vTitle :: string
  vDate :: string
  vDuration :: int
  MatchDate :: bool
  MatchDuration :: bool
  HasCJKChar :: bool
  HasNonEnglishChar :: bool
  IsTarget :: bool

fun parse_any :: "layout list \<Rightarrow> string \<Rightarrow> time option" where
  "parse_any [] s = None"
| "parse_any (l # ls) s = (case time_Parse l s of None \<Rightarrow> parse_any ls s | Some t \<Rightarrow> Some t)"

definition matchesCutoffDate :: "Video \<Rightarrow> time \<Rightarrow> bool" where
  "matchesCutoffDate v cutoffDate =
     (if vDate v = '''' then False
      else case parse_any [layout_short, layout_long, layout_iso] (vDate v) of
             None \<Rightarrow> False
           | Some t \<Rightarrow> \<not> t > cutoffDate)"

definition is_cjk :: "unicode_tables \<Rightarrow> nat \<Rightarrow> bool" where
  "is_cjk u ch \<longleftrightarrow> Han u ch \<or> Hiragana u ch \<or> Katakana u ch \<or> Hangul u ch"

definition hasCJK :: "unicode_tables \<Rightarrow> string \<Rightarrow> bool" where
  "hasCJK u title = list_ex (is_cjk u) (runes title)"

definition hasNonLatin :: "unicode_tables \<Rightarrow> string \<Rightarrow> bool" where
  "hasNonLatin u title = list_ex (\<lambda>ch. Letter u ch \<and> ch > 0x24F) (runes title)"

definition Match :: "unicode_tables \<Rightarrow> time \<Rightarrow> Video \<Rightarrow> Video" where
  "Match u cutoffDate v =
     (let v1 = v\<lparr>MatchDate := matchesCutoffDate v cutoffDate\<rparr>;
          v2 = v1\<lparr>MatchDuration := vDuration v1 > DurationThreshold\<rparr>;
          v3 = v2\<lparr>HasCJKChar := hasCJK u (vTitle v2)\<rparr>;
          v4 = v3\<lparr>HasNonEnglishChar := hasNonLatin u (vTitle v3)\<rparr>
      in v4\<lparr>IsTarget := MatchDate v4 \<and> MatchDuration v4 \<and> (HasCJKChar v4 \<or> HasNonEnglishChar v4)\<rparr>)"

subsection \<open>Titles in UTF-8\<close>

definition scalar :: "nat \<Rightarrow> bool" where
  "scalar c \<longleftrightarrow> c \<le> 0x10FFFF \<and> \<not> (0xD800 \<le> c \<and> c \<le> 0xDFFF)"

definition encode_rune :: "nat \<Rightarrow> nat list" where
  "encode_rune c =
     (if c < 0x80 then [c]
      else if c < 0x800 then [0xC0 + c div 64, 0x80 + c mod 64]
      else if c < 0x10000 then [0xE0 + c div 4096, 0x80 + c div 64 mod 64, 0x80 + c mod 64]
      else [0xF0 + c div 262144, 0x80 + c div 4096 mod 64, 0x80 + c div 64 mod 64, 0x80 + c mod 64])"

definition utf8 :: "nat list \<Rightarrow> string" where
  "utf8 cs = map char_of (concat (map encode_rune cs))"

lemma decode_2: "2 \<le> a \<Longrightarrow> a < 32 \<Longrightarrow> b < 64 \<Longrightarrow> DecodeRune ((0xC0 + a) # (0x80 + b) # r) = (a * 64 + b, 2)"
  by (simp add: DecodeRune_def cont_def)

lemma decode_3:
  "a \<le> 15 \<Longrightarrow> b < 64 \<Longrightarrow> d < 64 \<Longrightarrow> a = 0 \<longrightarrow> 32 \<le> b \<Longrightarrow> a = 13 \<longrightarrow> b \<le> 31 \<Longrightarrow>
   DecodeRune ((0xE0 + a) # (0x80 + b) # (0x80 + d) # r) = (a * 4096 + b * 64 + d, 3)"
  by (simp add: DecodeRune_def cont_def)

lemma decode_4:
  "a \<le> 4 \<Longrightarrow> b < 64 \<Longrightarrow> d < 64 \<Longrightarrow> e < 64 \<Longrightarrow> a = 0 \<longrightarrow> 16 \<le> b \<Longrightarrow> a = 4 \<longrightarrow> b \<le> 15 \<Longrightarrow>
   DecodeRune ((0xF0 + a) # (0x80 + b) # (0x80 + d) # (0x80 + e) # r) = (a * 262144 + b * 4096 + d * 64 + e, 4)"
  by (simp add: DecodeRune_def cont_def)

lemma decode_encode:
  assumes "scalar c"
  shows "DecodeRune (encode_rune c @ r) = (c, length (encode_rune c))"
proof -
  define x y z where "x = c div 64" and "y = x div 64" and "z = y div 64"
  have split: "c = 64 * x + c mod 64" "x = 64 * y + x mod 64" "y = 64 * z + y mod 64"
    by (simp_all add: x_def y_def z_def)
  have small: "c mod 64 < 64" "x mod 64 < 64" "y mod 64 < 64" by simp_all
  have divs: "c div 64 = x" "c div 4096 = y" "c div 262144 = z"
    by (simp_all add: x_def y_def z_def div_mult2_eq [symmetric])
  note facts = split small assms [unfolded scalar_def]
  consider (one) "c < 0x80" | (two) "0x80 \<le> c" "c < 0x800" | (three) "0x800 \<le> c" "c < 0x10000"
    | (four) "0x10000 \<le> c" by linarith
  then show ?thesis
  proof cases
    case one
    then show ?thesis by (simp add: encode_rune_def DecodeRune_def)
  next
    case two
    then have "2 \<le> x" "x < 32" using split(1) small(1) by linarith+
    with two decode_2 [of x "c mod 64" r] split(1) show ?thesis by (simp add: encode_rune_def divs)
  next
    case three
    then have "y \<le> 15" "y = 0 \<longrightarrow> 32 \<le> x mod 64" "y = 13 \<longrightarrow> x mod 64 \<le> 31" using facts by linarith+
    moreover have "c = y * 4096 + x mod 64 * 64 + c mod 64" using split by linarith
    ultimately show ?thesis using three decode_3 [of y "x mod 64" "c mod 64" r]
      by (simp add: encode_rune_def divs)
  next
    case four
    then have "z \<le> 4" "z = 0 \<longrightarrow> 16 \<le> y mod 64" "z = 4 \<longrightarrow> y mod 64 \<le> 15" using facts by linarith+
    moreover have "c = z * 262144 + y mod 64 * 4096 + x mod 64 * 64 + c mod 64" using split by linarith
    ultimately show ?thesis
      using four decode_4 [of z "y mod 64" "x mod 64" "c mod 64" r]
      by (simp add: encode_rune_def divs)
  qed
qed

lemma encode_byte: "scalar c \<Longrightarrow> b \<in> set (encode_rune c) \<Longrightarrow> b < 256"
  by (auto simp: encode_rune_def scalar_def split: if_splits)

lemma runes_utf8: "\<forall>c \<in> set cs. scalar c \<Longrightarrow> runes (utf8 cs) = cs"
proof -
  assume cs: "\<forall>c \<in> set cs. scalar c"
  then have "map (of_char \<circ> char_of) (concat (map encode_rune cs)) = concat (map encode_rune cs)"
    by (intro map_idI) (auto simp: take_bit_eq_mod dest!: encode_byte)
  then have "runes (utf8 cs) = decode_runes (concat (map encode_rune cs))"
    by (simp add: runes_def utf8_def)
  also have "\<dots> = cs"
    using cs
  proof (induction cs)
    case Nil
    then show ?case by (simp add: decode_runes.simps)
  next
    case (Cons c cs)
    then have "encode_rune c \<noteq> []" by (simp add: encode_rune_def)
    with Cons decode_encode [of c "concat (map encode_rune cs)"] show ?case
      by (subst decode_runes.simps) simp
  qed
  finally show ?thesis .
qed

subsection \<open>Dates\<close>

lemma parse_any_shown:
  assumes "valid_date y m d" and "s \<in> {show_short y m d, show_long y m d, show_iso y m d}"
  shows "parse_any [layout_short, layout_long, layout_iso] s = Some (time_Date (int y) m d 0 0 0)"
  using assms(2) parse_show_short [OF assms(1)] parse_show_long [OF assms(1)] parse_show_iso [OF assms(1)]
    parse_short_long [OF assms(1)] parse_names_iso [of y m d]
  by auto

lemma shown_not_empty: "s \<in> {show_short y m d, show_long y m d, show_iso y m d} \<Longrightarrow> s \<noteq> []"
  by (auto simp: show_short_def show_long_def show_iso_def)

lemma leap_sum:
  "(R \<Longrightarrow> Q) \<Longrightarrow> (Q \<Longrightarrow> P) \<Longrightarrow>
   (if P then 1 else 0) - (if Q then 1 else 0) + (if R then 1 else 0) = (if P \<and> (\<not> Q \<or> R) then 1 else (0 :: int))"
  by (cases P; cases Q; cases R) simp_all

lemma leaps_step: "leaps y - leaps (y - 1) = (if is_leap y then 1 else 0)"
proof -
  have step: "y div k - (y - 1) div k = (if y mod k = 0 then 1 else 0)" if k: "k > 1" for k :: int
  proof -
    define q r where "q = y div k" and "r = y mod k"
    have y: "y - 1 = (r - 1) + q * k" and r: "0 \<le> r" "r < k" using k by (simp_all add: q_def r_def)
    have "(y - 1) div k = q + (r - 1) div k" unfolding y using k by simp
    moreover have "(r - 1) div k = (if r = 0 then - 1 else 0)"
      using r k by (simp add: div_eq_minus1)
    ultimately show ?thesis unfolding q_def [symmetric] r_def [symmetric] by simp
  qed
  have "y mod 400 = 0 \<Longrightarrow> y mod 100 = 0" "y mod 100 = 0 \<Longrightarrow> y mod 4 = 0"
  proof -
    have "y mod 400 mod 100 = y mod 100" "y mod 100 mod 4 = y mod 4" by (rule mod_mod_cancel, simp)+
    then show "y mod 400 = 0 \<Longrightarrow> y mod 100 = 0" "y mod 100 = 0 \<Longrightarrow> y mod 4 = 0"
      by (metis mod_0)+
  qed
  note leap = leap_sum [OF this]
  have split: "y div 4 - (y - 1) div 4 = (if y mod 4 = 0 then 1 else 0)"
    "y div 100 - (y - 1) div 100 = (if y mod 100 = 0 then 1 else 0)"
    "y div 400 - (y - 1) div 400 = (if y mod 400 = 0 then 1 else 0)"
    by (rule step, simp)+
  have "leaps y - leaps (y - 1) =
      (y div 4 - (y - 1) div 4) - (y div 100 - (y - 1) div 100) + (y div 400 - (y - 1) div 400)"
    unfolding leaps_def by (simp only: algebra_simps)
  also have "\<dots> = (if is_leap y then 1 else 0)"
    unfolding split is_leap_def by (rule leap)
  finally show ?thesis .
qed

lemma year_start_mono: "y \<le> z \<Longrightarrow> civil_days y 1 1 \<le> civil_days z 1 1"
proof (induction z rule: int_ge_induct)
  case (step z)
  then show ?case using leaps_step [of z] by (auto simp: civil_days_def split: if_splits)
qed simp

lemma upt_1: "[1..<2] = [1 :: nat]" "[1..<3] = [1, 2 :: nat]" "[1..<4] = [1, 2, 3 :: nat]"
  "[1..<5] = [1, 2, 3, 4 :: nat]" "[1..<6] = [1, 2, 3, 4, 5 :: nat]" "[1..<7] = [1, 2, 3, 4, 5, 6 :: nat]"
  "[1..<8] = [1, 2, 3, 4, 5, 6, 7 :: nat]" "[1..<9] = [1, 2, 3, 4, 5, 6, 7, 8 :: nat]"
  "[1..<10] = [1, 2, 3, 4, 5, 6, 7, 8, 9 :: nat]" "[1..<11] = [1, 2, 3, 4, 5, 6, 7, 8, 9, 10 :: nat]"
  "[1..<12] = [1, 2, 3, 4, 5, 6, 7, 8, 9, 10, 11 :: nat]"
  by code_simp+

lemma days_before: "1 \<le> m \<Longrightarrow> m \<le> 12 \<Longrightarrow>
  int (sum_list (map (\<lambda>k. days_in k y) [1..<m])) + int (days_in m y) \<le> 365 + (if is_leap y then 1 else 0)"
  by (erule (1) month_cases) (simp_all add: days_in_def upt_1 del: One_nat_def)

text \<open>Days are counted in the order of the calendar.\<close>

definition calendar_date :: "ymd \<Rightarrow> bool" where
  "calendar_date t \<longleftrightarrow> 1 \<le> mon t \<and> mon t \<le> 12 \<and> 1 \<le> dy t \<and> dy t \<le> days_in (mon t) (yr t)"

definition day_number :: "ymd \<Rightarrow> int" where
  "day_number t = civil_days (yr t) (mon t) (dy t)"

lemma day_in_year:
  assumes "calendar_date t"
  shows "civil_days (yr t) 1 1 \<le> day_number t \<and> day_number t < civil_days (yr t + 1) 1 1"
  using assms days_before [of "mon t" "yr t"] leaps_step [of "yr t"]
  by (auto simp: calendar_date_def day_number_def civil_days_def split: if_splits)

lemma month_starts:
  assumes "1 \<le> m" and "m < m'"
  shows "sum_list (map (\<lambda>k. days_in k y) [1..<m]) + days_in m y \<le> sum_list (map (\<lambda>k. days_in k y) [1..<m'])"
proof -
  have "[1..<m'] = [1..<m] @ m # [Suc m..<m']"
    using assms upt_add_eq_append [of 1 m "m' - m"] by (simp add: upt_conv_Cons)
  then show ?thesis by simp
qed

lemma day_number_less:
  assumes "calendar_date s" and "calendar_date t" and "s < t"
  shows "day_number s < day_number t"
proof (cases "yr s < yr t")
  case True
  then have "civil_days (yr s + 1) 1 1 \<le> civil_days (yr t) 1 1" by (intro year_start_mono) simp
  with day_in_year [OF assms(1)] day_in_year [OF assms(2)] show ?thesis by linarith
next
  case False
  with assms(3) have "yr s = yr t" "mon s < mon t \<or> mon s = mon t \<and> dy s < dy t" by (auto simp: less_ymd_ext_def)
  with assms(1,2) month_starts [of "mon s" "mon t" "yr t"] show ?thesis
    by (auto simp: calendar_date_def day_number_def civil_days_def)
qed

lemma day_number_le:
  assumes "calendar_date s" and "calendar_date t"
  shows "day_number s \<le> day_number t \<longleftrightarrow> s \<le> t"
  using day_number_less [OF assms] day_number_less [OF assms(2,1)] by (cases s t rule: linorder_cases) auto

lemma date_before:
  assumes "calendar_date s" and "calendar_date t"
  shows "time_Date (yr s) (mon s) (dy s) 0 0 0 \<le> time_Date (yr t) (mon t) (dy t) 23 59 59 \<longleftrightarrow> s \<le> t"
proof -
  have "86400000000000 * a \<le> 86399000000000 + 86400000000000 * b \<longleftrightarrow> a \<le> b" for a b :: int
    by linarith
  then show ?thesis
    using day_number_le [OF assms] by (simp add: time_Date_def time_Second_def day_number_def)
qed

lemma date_before_year:
  assumes "valid_date y m d"
  shows "time_Date (int y) m d 0 0 0 \<le> time_Date z 12 31 23 59 59 \<longleftrightarrow> int y \<le> z"
proof -
  have "calendar_date \<lparr>yr = int y, mon = m, dy = d\<rparr>" "calendar_date \<lparr>yr = z, mon = 12, dy = 31\<rparr>"
    using assms by (simp_all add: calendar_date_def valid_date_def days_in_def)
  moreover have "d \<le> 31" "m \<le> 12" using assms by (auto simp: valid_date_def days_in_def split: if_splits)
  ultimately show ?thesis using date_before by (fastforce simp: less_eq_ymd_ext_def)
qed

lemmas show_eval = show_short_def show_iso_def shortMonthNames_def longMonthNames_def pad_def dec_nat.simps
  digit_chars valid_date_def days_in_def is_leap_def

text \<open>
  C33: the date condition. A video whose date is written in any of the three layouts the site uses
  matches exactly when that calendar day began no later than the cutoff; for a cutoff at the last second
  of a day, exactly when the date is not later in the calendar, and for one at the last second of a year,
  as the program's is, exactly when the date's year is not later.
\<close>

theorem cutoff_by_date:
  assumes "valid_date y m d" and "vDate v \<in> {show_short y m d, show_long y m d, show_iso y m d}"
  shows "(matchesCutoffDate v cutoff \<longleftrightarrow> time_Date (int y) m d 0 0 0 \<le> cutoff) \<and>
    (calendar_date c \<longrightarrow> (matchesCutoffDate v (time_Date (yr c) (mon c) (dy c) 23 59 59) \<longleftrightarrow>
       \<lparr>yr = int y, mon = m, dy = d\<rparr> \<le> c)) \<and>
    (matchesCutoffDate v (time_Date z 12 31 23 59 59) \<longleftrightarrow> int y \<le> z)"
proof -
  have "vDate v \<noteq> []" using shown_not_empty [OF assms(2)] .
  then have eq: "matchesCutoffDate v c \<longleftrightarrow> time_Date (int y) m d 0 0 0 \<le> c" for c
    using parse_any_shown [OF assms] by (simp add: matchesCutoffDate_def not_less)
  have "calendar_date \<lparr>yr = int y, mon = m, dy = d\<rparr>"
    using assms(1) by (simp add: valid_date_def calendar_date_def)
  from date_before [OF this] show ?thesis unfolding eq date_before_year [OF assms(1)] by simp
qed

theorem cutoff_by_date_witness:
  "matchesCutoffDate \<lparr>vURL = [], vTitle = [], vDate = ''Dec 31, 2023'', vDuration = 0, MatchDate = False,
      MatchDuration = False, HasCJKChar = False, HasNonEnglishChar = False, IsTarget = False\<rparr>
     (time_Date 2023 12 31 23 59 59) \<and>
   \<not> matchesCutoffDate \<lparr>vURL = [], vTitle = [], vDate = ''2024-01-01'', vDuration = 0, MatchDate = False,
      MatchDuration = False, HasCJKChar = False, HasNonEnglishChar = False, IsTarget = False\<rparr>
     (time_Date 2023 12 31 23 59 59) \<and> calendar_date \<lparr>yr = 2023, mon = 12, dy = 31\<rparr>"
proof -
  have "valid_date 2023 12 31" "valid_date 2024 1 1" by (simp_all add: show_eval)
  moreover have "''Dec 31, 2023'' = show_short 2023 12 31" "''2024-01-01'' = show_iso 2024 1 1"
    by (simp_all add: show_eval)
  ultimately show ?thesis
    using cutoff_by_date [of 2023 12 31 "\<lparr>vURL = [], vTitle = [], vDate = ''Dec 31, 2023'', vDuration = 0,
        MatchDate = False, MatchDuration = False, HasCJKChar = False, HasNonEnglishChar = False, IsTarget = False\<rparr>" 0 "\<lparr>yr = 2023, mon = 12, dy = 31\<rparr>" 2023]
      cutoff_by_date [of 2024 1 1 "\<lparr>vURL = [], vTitle = [], vDate = ''2024-01-01'', vDuration = 0,
        MatchDate = False, MatchDuration = False, HasCJKChar = False, HasNonEnglishChar = False, IsTarget = False\<rparr>" 0 "\<lparr>yr = 2023, mon = 12, dy = 31\<rparr>" 2023]
    by (simp add: calendar_date_def days_in_def less_eq_ymd_ext_def)
qed


definition sample_tables :: unicode_tables where
  \<comment> \<open>the ranges of two scripts, enough to evaluate an example\<close>
  "sample_tables = \<lparr>Han = (\<lambda>c. 0x4E00 \<le> c \<and> c \<le> 0x9FFF), Hiragana = (\<lambda>c. 0x3041 \<le> c \<and> c \<le> 0x3096),
     Katakana = (\<lambda>_. False), Hangul = (\<lambda>_. False), Letter = (\<lambda>c. 0x3041 \<le> c \<and> c \<le> 0x9FFF)\<rparr>"

definition sample_video :: Video where
  "sample_video = \<lparr>vURL = ''u'', vTitle = utf8 [0x61, 0x6771], vDate = ''May 5, 2009'', vDuration = 600, MatchDate = False,
      MatchDuration = False, HasCJKChar = False, HasNonEnglishChar = False, IsTarget = False\<rparr>"


end
