(* ===== verification/Mongo.thy ===== *)
theory Mongo
  imports Video
begin

text \<open>
  \<^verbatim>\<open>internal/storage/mongo.go\<close>. The MongoDB driver is not part of the repository: the collection is a
  state the code does not look into, and the driver's calls are a record of functions on it. What the
  code relies on is the locale \<open>mongo_store\<close>: a replace that reports no error has stored the document,
  a cursor over the ids that ends without an error has delivered every one of them, a query for the
  targets that succeeds returns each of them once, and a count that succeeds is the number of documents.
\<close>

subsection \<open>The driver\<close>

record ('e, 'm) driver =
  ReplaceOne :: "string \<Rightarrow> Video \<Rightarrow> 'm \<Rightarrow> 'e option \<times> 'm"      \<comment> \<open>by \<^verbatim>\<open>_id\<close>, with upsert\<close>
  FindIds :: "'m \<Rightarrow> 'e + (('e + string) list \<times> 'e option)"      \<comment> \<open>decoded documents, then cursor.Err\<close>
  FindVideos :: "bool \<Rightarrow> 'm \<Rightarrow> 'e + (Video list \<times> 'e option)"   \<comment> \<open>only targets?; the result of cursor.All\<close>
  CountDocuments :: "'m \<Rightarrow> 'e + int"
  DropCol :: "'m \<Rightarrow> 'e option \<times> 'm"

locale mongo_store =
  fixes D :: "('e, 'm) driver" and docs :: "'m \<Rightarrow> string \<Rightarrow> Video option"
  assumes replace_done: "ReplaceOne D i v m = (None, m') \<Longrightarrow> docs m' = (docs m)(i \<mapsto> v)"
    and replace_failed: "ReplaceOne D i v m = (Some e, m') \<Longrightarrow> docs m' = docs m \<or> docs m' = (docs m)(i \<mapsto> v)"
    and ids_complete: "FindIds D m = Inr (map Inr us, None) \<Longrightarrow> set us = dom (docs m)"
    and targets_found: "FindVideos D True m = Inr (vs, None) \<Longrightarrow> set vs = {v \<in> ran (docs m). IsTarget v}"
    and found_once: "FindVideos D True m = Inr (vs, None) \<Longrightarrow> length vs = card {u. \<exists>v. docs m u = Some v \<and> IsTarget v}"
    and counted: "CountDocuments D m = Inr n \<Longrightarrow> n = int (card (dom (docs m)))"
    and finite_docs: "finite (dom (docs m))"

subsection \<open>The operations\<close>

definition Upsert :: "('e, 'm) driver \<Rightarrow> Video \<Rightarrow> 'm \<Rightarrow> 'e option \<times> 'm" where
  "Upsert D v m = ReplaceOne D (vURL v) v m"

text \<open>The loop of EachVideoURL over the cursor: the URLs collected so far, and the callback's state.\<close>

fun each_url_loop ::
  "int \<Rightarrow> (string list \<Rightarrow> 'b \<Rightarrow> 'e option \<times> 'b) \<Rightarrow> string list \<Rightarrow> ('e + string) list \<Rightarrow> 'b \<Rightarrow> ('e + string list) \<times> 'b" where
  "each_url_loop batch fn urls [] b = (Inr urls, b)"
| "each_url_loop batch fn urls (Inl e # docs) b = (Inl e, b)"
| "each_url_loop batch fn urls (Inr url # docs) b =
     (let urls1 = urls @ [url]
      in if int (length urls1) \<ge> batch then
           (case fn urls1 b of
              (Some e, b') \<Rightarrow> (Inl e, b')
            | (None, b') \<Rightarrow> each_url_loop batch fn [] docs b')
         else each_url_loop batch fn urls1 docs b)"

definition EachVideoURL ::
  "('e, 'm) driver \<Rightarrow> int \<Rightarrow> (string list \<Rightarrow> 'b \<Rightarrow> 'e option \<times> 'b) \<Rightarrow> 'm \<Rightarrow> 'b \<Rightarrow> 'e option \<times> 'b" where
  "EachVideoURL D batch fn m b =
     (case FindIds D m of
        Inl e \<Rightarrow> (Some e, b)
      | Inr (docs, cursor_err) \<Rightarrow>
          (case each_url_loop batch fn [] docs b of
             (Inl e, b') \<Rightarrow> (Some e, b')
           | (Inr urls, b') \<Rightarrow>
               (case cursor_err of
                  Some e \<Rightarrow> (Some e, b')
                | None \<Rightarrow> if urls \<noteq> [] then fn urls b' else (None, b'))))"

definition FindAll :: "('e, 'm) driver \<Rightarrow> 'm \<Rightarrow> Video list \<times> 'e option" where
  "FindAll D m = (case FindVideos D False m of Inl e \<Rightarrow> ([], Some e) | Inr (videos, err) \<Rightarrow> (videos, err))"

definition FindTargets :: "('e, 'm) driver \<Rightarrow> 'm \<Rightarrow> Video list \<times> 'e option" where
  "FindTargets D m = (case FindVideos D True m of Inl e \<Rightarrow> ([], Some e) | Inr (videos, err) \<Rightarrow> (videos, err))"

definition Count_docs :: "('e, 'm) driver \<Rightarrow> 'm \<Rightarrow> 'e + int" where
  "Count_docs D m = CountDocuments D m"

definition Drop_docs :: "('e, 'm) driver \<Rightarrow> 'm \<Rightarrow> 'e option \<times> 'm" where
  "Drop_docs D m = DropCol D m"

text \<open>A callback that, when it succeeds, has put its URLs into a growing set: so has the whole stream.\<close>

lemma each_url_loop_collects:
  assumes "\<And>us b b'. fn us b = (None, b') \<Longrightarrow> g b \<union> set us \<subseteq> g b'"
  shows "each_url_loop batch fn urls ids b = (Inr rest, b') \<Longrightarrow>
    \<exists>us. ids = map Inr us \<and> g b \<union> set urls \<union> set us \<subseteq> g b' \<union> set rest"
proof (induction ids arbitrary: urls b)
  case (Cons x ids)
  from Cons.prems obtain url where x: "x = Inr url" by (cases x) auto
  show ?case
  proof (cases "int (length (urls @ [url])) \<ge> batch")
    case True
    with Cons.prems x obtain b1 where b1: "fn (urls @ [url]) b = (None, b1)"
      "each_url_loop batch fn [] ids b1 = (Inr rest, b')"
      by (auto simp: Let_def split: prod.splits option.splits)
    from Cons.IH [OF b1(2)] obtain us where "ids = map Inr us" "g b1 \<union> set us \<subseteq> g b' \<union> set rest"
      by auto
    moreover have "g b \<union> set (urls @ [url]) \<subseteq> g b1" by (rule assms [OF b1(1)])
    ultimately show ?thesis using x by (intro exI [of _ "url # us"]) auto
  next
    case False
    then have "each_url_loop batch fn (urls @ [url]) ids b = (Inr rest, b')"
      using Cons.prems x by simp
    from Cons.IH [OF this] obtain us where "ids = map Inr us"
      "g b \<union> set (urls @ [url]) \<union> set us \<subseteq> g b' \<union> set rest" by auto
    with x show ?thesis by (intro exI [of _ "url # us"]) auto
  qed
qed auto

lemma EachVideoURL_collects:
  assumes "\<And>us b b'. fn us b = (None, b') \<Longrightarrow> g b \<union> set us \<subseteq> g b'"
    and "EachVideoURL D batch fn m b = (None, b')"
  shows "\<exists>us. FindIds D m = Inr (map Inr us, None) \<and> g b \<union> set us \<subseteq> g b'"
proof -
  from assms(2) obtain ids rest b1 where ids: "FindIds D m = Inr (ids, None)"
    and loop: "each_url_loop batch fn [] ids b = (Inr rest, b1)"
    and last: "if rest \<noteq> [] then fn rest b1 = (None, b') else b' = b1"
    by (auto simp: EachVideoURL_def split: sum.splits prod.splits option.splits if_splits)
  from each_url_loop_collects [of fn g, OF assms(1) loop] obtain us where
    "ids = map Inr us" "g b \<union> set us \<subseteq> g b1 \<union> set rest" by auto
  moreover have "g b1 \<union> set rest \<subseteq> g b'"
    using last assms(1) [of rest b1 b'] by (cases "rest = []") auto
  ultimately show ?thesis using ids by auto
qed

text \<open>What the callback keeps, errors included, the stream keeps.\<close>

lemma each_url_loop_keeps:
  assumes "\<And>us b. P b \<Longrightarrow> P (snd (fn us b))"
  shows "P b \<Longrightarrow> P (snd (each_url_loop batch fn urls ids b))"
proof (induction ids arbitrary: urls b)
  case (Cons x ids)
  show ?case
  proof (cases x)
    case (Inr url)
    have "P (snd (fn (urls @ [url]) b))" using assms Cons.prems by blast
    with Inr Cons show ?thesis by (auto simp: Let_def split: prod.splits option.splits)
  qed (use Cons.prems in simp)
qed simp

lemma EachVideoURL_keeps:
  assumes "\<And>us b. P b \<Longrightarrow> P (snd (fn us b))" and "P b"
  shows "P (snd (EachVideoURL D batch fn m b))"
proof -
  have loop: "P b1" if "each_url_loop batch fn [] ids b = (x, b1)" for ids x b1
    using each_url_loop_keeps [of P fn, OF assms, of batch "[]" ids] that by simp
  have "P (snd (fn us b1))" if "P b1" for us b1 using assms(1) that by blast
  with loop assms(2) show ?thesis
    by (auto simp: EachVideoURL_def simp del: each_url_loop.simps split: sum.splits prod.splits option.splits)
qed

subsection \<open>A reference driver\<close>

definition ref_driver :: "('e, (string \<times> Video) list) driver" where
  "ref_driver =
     \<lparr>ReplaceOne = (\<lambda>i v m. (None, AList.update i v m)),
      FindIds = (\<lambda>m. Inr (map (\<lambda>p. Inr (fst p)) (AList.clearjunk m), None)),
      FindVideos = (\<lambda>only m. Inr (filter (\<lambda>v. only \<longrightarrow> IsTarget v) (map snd (AList.clearjunk m)), None)),
      CountDocuments = (\<lambda>m. Inr (int (length (AList.clearjunk m)))),
      DropCol = (\<lambda>m. (None, []))\<rparr>"

interpretation ref_mongo: mongo_store "ref_driver :: ('e, (string \<times> Video) list) driver" map_of
proof
  fix m :: "(string \<times> Video) list" and us
  assume "FindIds (ref_driver :: ('e, (string \<times> Video) list) driver) m = Inr (map Inr us, None)"
  then have "map Inr (map fst (AList.clearjunk m)) = (map Inr us :: ('e + string) list)"
    by (simp add: ref_driver_def comp_def)
  then have "us = map fst (AList.clearjunk m)"
    by (metis inj_Inr list.inj_map_strong sum.inject(2))
  then show "set us = dom (map_of m)"
    by (simp add: dom_map_of_conv_image_fst) (metis dom_clearjunk image_set list.set_map dom_map_of_conv_image_fst map_of_clearjunk)
next
  fix m :: "(string \<times> Video) list" and vs
  assume "FindVideos (ref_driver :: ('e, (string \<times> Video) list) driver) True m = Inr (vs, None)"
  then have "vs = filter IsTarget (map snd (AList.clearjunk m))" by (simp add: ref_driver_def)
  moreover have "ran (map_of m) = snd ` set (AList.clearjunk m)"
    using ran_distinct [OF distinct_clearjunk, of m] by (simp add: map_of_clearjunk)
  ultimately show "set vs = {v \<in> ran (map_of m). IsTarget v}" by auto
  let ?hits = "filter (\<lambda>p. IsTarget (snd p)) (AList.clearjunk m)"
  have "length vs = length (map fst ?hits)"
    using \<open>vs = _\<close> by (simp add: filter_map comp_def)
  also have "\<dots> = card (set (map fst ?hits))"
    using distinct_clearjunk [of m] by (intro distinct_card [symmetric] distinct_map_filter)
  also have "set (map fst ?hits) = {u. \<exists>v. map_of (AList.clearjunk m) u = Some v \<and> IsTarget v}"
    using distinct_clearjunk [of m] by (force simp: map_of_eq_Some_iff)
  finally show "length vs = card {u. \<exists>v. map_of m u = Some v \<and> IsTarget v}" by (simp add: map_of_clearjunk)
next
  fix m :: "(string \<times> Video) list" and n
  assume "CountDocuments (ref_driver :: ('e, (string \<times> Video) list) driver) m = Inr n"
  then have "n = int (length (map fst (AList.clearjunk m)))" by (simp add: ref_driver_def)
  also have "length (map fst (AList.clearjunk m)) = card (set (map fst (AList.clearjunk m)))"
    by (rule distinct_card [OF distinct_clearjunk, symmetric])
  also have "set (map fst (AList.clearjunk m)) = dom (map_of m)"
    by (metis dom_map_of_conv_image_fst image_set map_of_clearjunk)
  finally show "n = int (card (dom (map_of m)))" .
qed (simp_all add: ref_driver_def update_conv' finite_dom_map_of)

subsection \<open>Batches\<close>

text \<open>A callback that records the batches it is given.\<close>

definition record_batch :: "string list \<Rightarrow> string list list \<Rightarrow> 'e option \<times> string list list" where
  "record_batch us bs = (None, bs @ [us])"

definition batches_ok :: "int \<Rightarrow> string list list \<Rightarrow> bool" where
  "batches_ok batch bs \<longleftrightarrow> (\<forall>us \<in> set bs. int (length us) = batch)"

lemma each_url_loop_batches:
  "1 \<le> batch \<Longrightarrow> int (length urls) < batch \<Longrightarrow>
   \<exists>new rest. each_url_loop batch record_batch urls (map Inr us :: ('e + string) list) bs = (Inr rest, bs @ new) \<and>
     concat new @ rest = urls @ us \<and> batches_ok batch new \<and> int (length rest) < batch"
proof (induction us arbitrary: urls bs)
  case Nil
  then show ?case by (auto simp: batches_ok_def)
next
  case (Cons u us)
  show ?case
  proof (cases "int (length (urls @ [u])) \<ge> batch")
    case True
    with Cons.prems have len: "int (length (urls @ [u])) = batch" by simp
    obtain new rest where "each_url_loop batch record_batch [] (map Inr us :: ('e + string) list) (bs @ [urls @ [u]]) = (Inr rest, (bs @ [urls @ [u]]) @ new)"
      "concat new @ rest = us" "batches_ok batch new" "int (length rest) < batch"
      using Cons.IH [of "[]" "bs @ [urls @ [u]]"] Cons.prems by auto
    moreover have "record_batch (urls @ [u]) bs = (None :: 'e option, bs @ [urls @ [u]])"
      by (rule record_batch_def)
    ultimately show ?thesis using True len
      by (intro exI [of _ "(urls @ [u]) # new"] exI [of _ rest]) (simp add: batches_ok_def)
  next
    case False
    then show ?thesis
      using Cons.IH [of "urls @ [u]" bs] Cons.prems by simp
  qed
qed

text \<open>
  Streaming in batches. When the cursor delivers the URLs and no callback fails, EachVideoURL hands
  every URL to the callback exactly once, in cursor order: full batches first, then what is left over,
  which is never empty and shorter than a batch; on an empty collection the callback is not called.
\<close>

theorem each_url_in_batches:
  fixes D :: "('e, 'm) driver"
  assumes "1 \<le> batch" and "FindIds D m = Inr (map Inr us, None)"
  shows "\<exists>bs. EachVideoURL D batch record_batch m [] = (None, bs) \<and> concat bs = us \<and>
    (\<forall>b \<in> set bs. b \<noteq> [] \<and> int (length b) \<le> batch) \<and> (\<forall>b \<in> set (butlast bs). int (length b) = batch)"
proof -
  obtain new rest where run: "each_url_loop batch record_batch [] (map Inr us :: ('e + string) list) [] = (Inr rest, new)"
    and "concat new @ rest = us" and new: "batches_ok batch new" and rest: "int (length rest) < batch"
    using each_url_loop_batches [OF assms(1), of "[]" us "[]"] assms(1) by auto
  moreover have "b \<noteq> []" if "b \<in> set new" for b
    using new that assms(1) by (auto simp: batches_ok_def)
  ultimately show ?thesis
    using assms(2)
    by (cases "rest = []")
       (auto simp: EachVideoURL_def record_batch_def batches_ok_def dest: in_set_butlastD)
qed

theorem each_url_in_batches_witness:
  "\<exists>bs. EachVideoURL ref_driver 2 record_batch [(''a'', sample_video), (''b'', sample_video), (''c'', sample_video)] [] =
     (None, bs) \<and> concat bs = [''a'', ''b'', ''c'']"
proof -
  have "FindIds ref_driver [(''a'', sample_video), (''b'', sample_video), (''c'', sample_video)] =
      Inr (map Inr [''a'', ''b'', ''c''], None)"
    by (simp add: ref_driver_def)
  from each_url_in_batches [OF _ this, of 2] show ?thesis by auto
qed

end
