(* ===== verification/Bloom.thy ===== *)
theory Bloom
  imports Complex_Main Go_Strings Frontier_Admission
begin

text \<open>
  \<^verbatim>\<open>internal/storage/redis.go\<close>: the life of the Bloom filter's key. BF.RESERVE and BF.INFO are calls of
  the client whose outcome is an argument here; BF.ADD goes through the store's semantics. The false
  positive rate is computed over the reals, without the rounding of float64.
\<close>

definition bloomCapacity :: int where "bloomCapacity = 1000000000"
definition bloomErrorRate :: real where "bloomErrorRate = 0.00001"

text \<open>What BF.RESERVE came to: None when the filter was created, else the error's text.\<close>

definition BloomInit :: "string option \<Rightarrow> bool \<times> string option" where
  "BloomInit err =
     (case err of
        Some e \<Rightarrow> if Contains e ''exists'' then (False, None) else (False, Some e)
      | None \<Rightarrow> (True, None))"

record bloomStats =
  capacity :: int
  bsize :: int
  nfilters :: int
  itemsInserted :: int

text \<open>The pipeline of the four BF.INFO reads: the first error, or the four values.\<close>

definition read_bloomStats :: "'e + int \<Rightarrow> 'e + int \<Rightarrow> 'e + int \<Rightarrow> 'e + int \<Rightarrow> 'e + bloomStats" where
  "read_bloomStats cap sz fs its =
     (case (cap, sz, fs, its) of
        (Inl e, _, _, _) \<Rightarrow> Inl e
      | (Inr _, Inl e, _, _) \<Rightarrow> Inl e
      | (Inr _, Inr _, Inl e, _) \<Rightarrow> Inl e
      | (Inr _, Inr _, Inr _, Inl e) \<Rightarrow> Inl e
      | (Inr c, Inr s, Inr f, Inr i) \<Rightarrow> Inr \<lparr>capacity = c, bsize = s, nfilters = f, itemsInserted = i\<rparr>)"

datatype 'e bloom_err = Unreadable 'e | WrongCapacity int | Scaled int | FPRTooHigh

definition impliedFPR :: "bloomStats \<Rightarrow> real" where
  "impliedFPR info = 0.6185 powr (real_of_int (wrap64 (bsize info * 8)) / real_of_int (capacity info))"

definition BloomVerify :: "'e + bloomStats \<Rightarrow> 'e bloom_err option" where
  "BloomVerify stats =
     (case stats of
        Inl e \<Rightarrow> Some (Unreadable e)
      | Inr info \<Rightarrow>
          if capacity info \<noteq> bloomCapacity then Some (WrongCapacity (capacity info))
          else if nfilters info > 1 then Some (Scaled (nfilters info))
          else if impliedFPR info > bloomErrorRate * 2 then Some FPRTooHigh
          else None)"

definition BloomFillRatio_of :: "'e + bloomStats \<Rightarrow> 'e + rat" where
  "BloomFillRatio_of stats =
     (case stats of
        Inl e \<Rightarrow> Inl e
      | Inr info \<Rightarrow> Inr (Fract (itemsInserted info) (capacity info)))"

definition BloomAddBatch :: "server \<Rightarrow> string list \<Rightarrow> db \<Rightarrow> rerr option \<times> db" where
  "BloomAddBatch ev urls s =
     (let (res, s') = pipeline ev (map (BFADD bloomKey) urls) s
      in (case res of Inl e \<Rightarrow> Some e | Inr _ \<Rightarrow> None, s'))"

definition BloomReset :: "rerr option \<Rightarrow> db \<Rightarrow> rerr option \<times> db" where
  \<comment> \<open>DEL of the filter's key; the argument is the error of the call\<close>
  "BloomReset err s =
     (case err of None \<Rightarrow> (None, s\<lparr>dbloom := (dbloom s)(bloomKey := {})\<rparr>) | Some e \<Rightarrow> (Some e, s))"

definition FlushDB :: "rerr option \<Rightarrow> db \<Rightarrow> rerr option \<times> db" where
  "FlushDB err s = (case err of None \<Rightarrow> (None, empty_db) | Some e \<Rightarrow> (Some e, s))"

subsection \<open>Verification of the filter's shape\<close>

lemma fpr_mono: "b \<le> a \<Longrightarrow> (0.6185 :: real) powr a \<le> 0.6185 powr b"
  by (rule powr_mono') auto

lemma fpr_24: "(0.6185 :: real) powr 24 \<le> 0.00002" and fpr_22: "0.00002 < (0.6185 :: real) powr 22"
  by (simp_all add: powr_numeral power_divide)

text \<open>
  The check of the filter's size. For a filter of the configured capacity that has not scaled,
  BloomVerify accepts one of at least 24 bits per element (3 GB) and rejects one of at most 22 (2.75 GB);
  another capacity, or more than one sub-filter, is rejected whatever its size.
\<close>

theorem bloom_verify_size:
  assumes "0 \<le> bsize info" and "bsize info < 2 ^ 60"
  shows "(capacity info = bloomCapacity \<and> nfilters info \<le> 1 \<and> 3000000000 \<le> bsize info \<longrightarrow>
       BloomVerify (Inr info) = None) \<and>
    (capacity info = bloomCapacity \<and> bsize info \<le> 2750000000 \<longrightarrow> BloomVerify (Inr info) \<noteq> None) \<and>
    (capacity info \<noteq> bloomCapacity \<or> nfilters info > 1 \<longrightarrow> BloomVerify (Inr info) \<noteq> None)"
proof -
  let ?b = "real_of_int (bsize info * 8) / 1000000000"
  have "wrap64 (bsize info * 8) = bsize info * 8"
    using assms by (intro wrap64_id) auto
  then have fpr: "impliedFPR info = 0.6185 powr ?b" if "capacity info = bloomCapacity"
    using that by (simp add: impliedFPR_def bloomCapacity_def)
  have "0.6185 powr ?b \<le> 0.00002" if "3000000000 \<le> bsize info"
  proof -
    have "24 \<le> ?b" using that by simp
    then show ?thesis using fpr_mono [of 24 ?b] fpr_24 by linarith
  qed
  moreover have "0.00002 < 0.6185 powr ?b" if "bsize info \<le> 2750000000"
  proof -
    have "?b \<le> 22" using that by simp
    then show ?thesis using fpr_mono [of ?b 22] fpr_22 by linarith
  qed
  ultimately show ?thesis
    using fpr by (auto simp: BloomVerify_def bloomErrorRate_def)
qed

theorem bloom_verify_size_witness:
  "BloomVerify (Inr \<lparr>capacity = 1000000000, bsize = 3000000000, nfilters = 1, itemsInserted = 0\<rparr> :: rerr + bloomStats) = None \<and>
   BloomVerify (Inr \<lparr>capacity = 1000000000, bsize = 1200000000, nfilters = 1, itemsInserted = 0\<rparr> :: rerr + bloomStats) \<noteq> None"
  using bloom_verify_size [of "\<lparr>capacity = 1000000000, bsize = 3000000000, nfilters = 1, itemsInserted = 0\<rparr>"]
    bloom_verify_size [of "\<lparr>capacity = 1000000000, bsize = 1200000000, nfilters = 1, itemsInserted = 0\<rparr>"]
  by (simp add: bloomCapacity_def)

subsection \<open>Adding in batches\<close>

lemma add_completes: "completes (Call (BFADD k u) Return) s r s' \<Longrightarrow> u \<in> dbloom s' k \<and> dbloom s k \<subseteq> dbloom s' k"
  by (auto simp: store_simps bf_add_def split: if_splits)

lemma add_aborts: "aborts (Call (BFADD k u) Return) s s' \<Longrightarrow> dbloom s k \<subseteq> dbloom s' k"
  by (auto simp: store_simps bf_add_def split: if_splits)

lemma pipeline_adds:
  assumes "redis_server ev"
  shows "pipeline ev (map (BFADD k) us) s = (res, s') \<Longrightarrow>
    dbloom s k \<subseteq> dbloom s' k \<and> (\<forall>rs. res = Inr rs \<longrightarrow> set us \<subseteq> dbloom s' k)"
proof (induction us arbitrary: s res s')
  case (Cons u us)
  obtain r1 s1 where one: "ev (Call (BFADD k u) Return) s = (r1, s1)" by fastforce
  obtain rest where rest: "pipeline ev (map (BFADD k) us) s1 = (rest, s')"
    and res: "res = (case r1 of Inl e \<Rightarrow> Inl e | Inr r \<Rightarrow> (case rest of Inl e \<Rightarrow> Inl e | Inr rs \<Rightarrow> Inr (r # rs)))"
    using Cons.prems one by (auto split: prod.splits)
  have "dbloom s k \<subseteq> dbloom s1 k" "\<forall>r. r1 = Inr r \<longrightarrow> u \<in> dbloom s1 k"
    using redis_server.eval_done [OF assms] redis_server.eval_failed [OF assms] one add_completes add_aborts
    by (cases r1; blast)+
  with Cons.IH [OF rest] res show ?case by (auto split: sum.splits)
qed simp

lemma BloomAddBatch_adds:
  assumes "redis_server ev" "BloomAddBatch ev us s = (err, s')"
  shows "dbloom s bloomKey \<subseteq> dbloom s' bloomKey \<and> (err = None \<longrightarrow> set us \<subseteq> dbloom s' bloomKey)"
  using pipeline_adds [OF assms(1), of bloomKey us s] assms(2)
  by (auto simp: BloomAddBatch_def Let_def split: prod.splits sum.splits)

end
