(* ===== verification/Crawler.thy ===== *)
theory Crawler
  imports World Mongo Bloom
begin

text \<open>
  \<^verbatim>\<open>internal/crawler/crawler.go\<close> and the admission part of \<^verbatim>\<open>worker.go\<close>: the crawler's state, the canonical
  form of URLs, their classes, and the ways URLs enter the frontier (links of a page, the seed file).
  The cookie jar, the mutex and the debug flag have no counterpart; log lines are not modelled.
\<close>

record ('s, 'm, 'e) Crawler = "'s world" +
  conf :: Config
  frontier :: "'s Frontier"
  mongo :: "('e, 'm) driver"
  mstate :: 'm                  \<comment> \<open>the collection behind the driver\<close>
  targets :: "Video list"
  count :: int

type_synonym ('s, 'm, 'e) crawler_op = "('s, 'm, 'e) Crawler \<Rightarrow> ('s, 'm, 'e) Crawler"

definition TargetCount :: "('s, 'm, 'e) Crawler \<Rightarrow> int" where
  "TargetCount c = int (length (targets c))"

definition New_crawler ::
  "Config \<Rightarrow> ('e, 'm) driver \<Rightarrow> 'm \<Rightarrow> 's Frontier \<Rightarrow> 's world \<Rightarrow> ('s, 'm, 'e) Crawler" where
  "New_crawler cf D m F w =
     \<lparr>fstate = fstate w, metrics = metrics w, stopped = stopped w, clock = clock w,
      conf = cf, frontier = F, mongo = D, mstate = m, targets = [], count = 0\<rparr>"

subsection \<open>URLs\<close>

definition canonicalize :: "Config \<Rightarrow> string \<Rightarrow> string" where
  "canonicalize cf raw0 =
     (let raw = (case Index raw0 ''#'' of Some i \<Rightarrow> take i raw0 | None \<Rightarrow> raw0)
      in if \<not> HasPrefix raw (BaseUrl cf) then ''''
         else case Index raw (VideoPattern cf) of
           Some idx \<Rightarrow>
             (let rest = drop (idx + length (VideoPattern cf)) raw
              in if rest = '''' then ''''
                 else let rest' = (case Index rest ''&'' of Some amp \<Rightarrow> take amp rest | None \<Rightarrow> rest)
                      in BaseUrl cf @ VideoPattern cf @ rest')
         | None \<Rightarrow> TrimRight raw {CHR ''/''})"

definition NewURLClassifier :: "Config \<Rightarrow> string list \<Rightarrow> URLClassifier" where
  "NewURLClassifier cf seedURLs url =
     (if Contains url (VideoPattern cf) then ClassVideo
      else if url \<in> set seedURLs then ClassSeed
      else ClassListing)"

subsection \<open>Admission\<close>

definition admitURL :: "string \<Rightarrow> ('s, 'm, 'e) Crawler \<Rightarrow> (gerr + AdmitResult) \<times> ('s, 'm, 'e) Crawler" where
  "admitURL raw c =
     (let url = canonicalize (conf c) raw
      in if url = '''' then (Inr Suppressed, c)
         else if Contains url (VideoPattern (conf c)) then fcall (\<lambda>now. AdmitVideo (frontier c) now url) c
         else fcall (\<lambda>now. AdmitListing (frontier c) now url) c)"

fun enqueue_loop ::
  "int \<Rightarrow> string list \<Rightarrow> ('s, 'm, 'e) Crawler \<Rightarrow> (int \<times> gerr option) \<times> ('s, 'm, 'e) Crawler" where
  "enqueue_loop newCount [] c = ((newCount, None), c)"
| "enqueue_loop newCount (raw # links) c =
     (case admitURL raw c of
        (Inl e, c1) \<Rightarrow> ((newCount, Some e), c1)
      | (Inr res, c1) \<Rightarrow> enqueue_loop (if res = New then newCount + 1 else newCount) links c1)"

definition enqueueChildren ::
  "string list \<Rightarrow> ('s, 'm, 'e) Crawler \<Rightarrow> (int \<times> gerr option) \<times> ('s, 'm, 'e) Crawler" where
  "enqueueChildren links c = enqueue_loop 0 links c"

text \<open>Seed: the outcome of reading the file is None for an error; the answer is the count it logs.\<close>

fun seed_loop :: "int \<Rightarrow> string list \<Rightarrow> ('s, 'm, 'e) Crawler \<Rightarrow> int \<times> ('s, 'm, 'e) Crawler" where
  "seed_loop n [] c = (n, c)"
| "seed_loop n (line # rest) c =
     (if TrimSpace line = '''' then seed_loop n rest c
      else case admitURL line c of
             (Inl e, c1) \<Rightarrow> seed_loop n rest c1
           | (Inr _, c1) \<Rightarrow> seed_loop (n + 1) rest c1)"

definition Seed :: "string option \<Rightarrow> ('s, 'm, 'e) Crawler \<Rightarrow> int \<times> ('s, 'm, 'e) Crawler" where
  "Seed file c =
     (case file of None \<Rightarrow> (0, c) | Some text \<Rightarrow> seed_loop 0 (Split text (CHR 0x0A)) c)"

subsection \<open>Startup and reset\<close>

definition Resume :: "('s, 'm, 'e) crawler_op" where
  "Resume c =
     (case Count_docs (mongo c) (mstate c) of
        Inl e \<Rightarrow> c
      | Inr n \<Rightarrow>
          (case FindTargets (mongo c) (mstate c) of
             (ts, Some e) \<Rightarrow> c
           | (ts, None) \<Rightarrow> c\<lparr>targets := targets c @ ts, count := n\<rparr>))"

text \<open>The two resets ignore the errors of the store and of redis; \<open>flush\<close> is that of FLUSHDB.\<close>

definition Clear :: "rerr option \<Rightarrow> (db, 'm, 'e) crawler_op" where
  "Clear flush c =
     c\<lparr>mstate := snd (Drop_docs (mongo c) (mstate c)), fstate := snd (FlushDB flush (fstate c))\<rparr>"

definition InitTest :: "rerr option \<Rightarrow> (db, 'm, 'e) crawler_op" where
  "InitTest flush c = c\<lparr>fstate := snd (FlushDB flush (fstate c))\<rparr>"

text \<open>SaveTest: the targets it encodes into the output file, or the error of the query or of creating it.\<close>

definition SaveTest :: "'e option \<Rightarrow> ('s, 'm, 'e) Crawler \<Rightarrow> 'e + Video list" where
  "SaveTest create_err c =
     (case FindTargets (mongo c) (mstate c) of
        (ts, Some e) \<Rightarrow> Inl e
      | (ts, None) \<Rightarrow> (case create_err of Some e \<Rightarrow> Inl e | None \<Rightarrow> Inr ts))"

end
