(* ===== verification/Crawl.thy ===== *)
theory Crawl
  imports Crawler Frontier_Safety
begin

text \<open>
  The crawl as a whole: any interleaving of the calls that workers, reconcilers and the startup make of
  the frontier, the video store and the filter, as a step relation over the videos admitted so far, the
  frontier's state and the collection. A call may give up the work owed to a video (an acknowledgement)
  only if the collection holds that video. The locale \<open>crawl_contract\<close> adds to the frontier's contract
  what this needs, and the clients' lemmas about whole runs are proved inside it.
\<close>

inductive crawl_step ::
  "'s Frontier \<Rightarrow> URLClassifier \<Rightarrow> (time \<Rightarrow> bool) \<Rightarrow> ('s \<Rightarrow> 's \<Rightarrow> bool) \<Rightarrow> ('e, 'm) driver \<Rightarrow> ('m \<Rightarrow> string \<Rightarrow> Video option) \<Rightarrow>
   string set \<times> 's \<times> 'm \<Rightarrow> string set \<times> 's \<times> 'm \<Rightarrow> bool"
  for F :: "'s Frontier" and cl :: URLClassifier and clk :: "time \<Rightarrow> bool" and maint :: "'s \<Rightarrow> 's \<Rightarrow> bool"
    and D :: "('e, 'm) driver" and docs :: "'m \<Rightarrow> string \<Rightarrow> Video option" where
  frontier_call: "frontier_step F cl clk (C - dom (docs m), s) (A, s') \<Longrightarrow> C - dom (docs m) \<subseteq> A \<Longrightarrow>
     crawl_step F cl clk maint D docs (C, s, m) (C \<union> A, s', m)"
| maintenance: "maint s s' \<Longrightarrow> crawl_step F cl clk maint D docs (C, s, m) (C, s', m)"
| store: "Upsert D v m = (err, m') \<Longrightarrow> crawl_step F cl clk maint D docs (C, s, m) (C, s, m')"

inductive_cases crawl_stepE: "crawl_step F cl clk maint D docs (C, s, m) (C', s', m')"

abbreviation crawl_steps ::
  "'s Frontier \<Rightarrow> URLClassifier \<Rightarrow> (time \<Rightarrow> bool) \<Rightarrow> ('s \<Rightarrow> 's \<Rightarrow> bool) \<Rightarrow> ('e, 'm) driver \<Rightarrow> ('m \<Rightarrow> string \<Rightarrow> Video option) \<Rightarrow>
   string set \<times> 's \<times> 'm \<Rightarrow> string set \<times> 's \<times> 'm \<Rightarrow> bool" where
  "crawl_steps F cl clk maint D docs \<equiv> (crawl_step F cl clk maint D docs)\<^sup>*\<^sup>*"

locale crawl_contract = frontier_contract F cl inv clk + mongo_store D docs
  for F :: "'s Frontier" and cl :: URLClassifier and inv :: "string set \<Rightarrow> 's \<Rightarrow> bool" and clk :: "time \<Rightarrow> bool"
    and D :: "('e, 'm) driver" and docs :: "'m \<Rightarrow> string \<Rightarrow> Video option" +
  fixes maint :: "'s \<Rightarrow> 's \<Rightarrow> bool"
  assumes inv_mono: "inv A s \<Longrightarrow> B \<subseteq> A \<Longrightarrow> inv B s"
    and maint_inv: "inv A s \<Longrightarrow> maint s s' \<Longrightarrow> inv A s'"
begin

lemma upsert_docs: "Upsert D v m = (err, m') \<Longrightarrow>
  dom (docs m) \<subseteq> dom (docs m') \<and> (err = None \<longrightarrow> docs m' (vURL v) = Some v)"
  using replace_done [of "vURL v" v m m'] replace_failed [of "vURL v" v m _ m']
  by (cases err) (auto simp: Upsert_def)

text \<open>Work is owed exactly to the admitted videos the collection does not hold.\<close>

definition crawl_inv :: "string set \<times> 's \<times> 'm \<Rightarrow> bool" where
  "crawl_inv p \<longleftrightarrow> (case p of (C, s, m) \<Rightarrow> inv (C - dom (docs m)) s)"

lemma crawl_step_inv: "crawl_step F cl clk maint D docs p q \<Longrightarrow> crawl_inv p \<Longrightarrow> crawl_inv q"
proof (induction rule: crawl_step.induct)
  case (frontier_call C m s A s')
  then have "inv A s'" using step_inv [OF frontier_call(1)] by (simp add: crawl_inv_def)
  then show ?case using frontier_call(2) by (auto simp: crawl_inv_def intro: inv_mono)
next
  case (maintenance s s' C m)
  then show ?case by (auto simp: crawl_inv_def intro: maint_inv)
next
  case (store v m err m' C s)
  then show ?case using upsert_docs [of v m err m'] by (auto simp: crawl_inv_def intro: inv_mono)
qed

lemma crawl_steps_inv: "crawl_steps F cl clk maint D docs p q \<Longrightarrow> crawl_inv p \<Longrightarrow> crawl_inv q"
  by (induction rule: rtranclp_induct) (auto dest: crawl_step_inv)

lemma crawl_step_grows: "crawl_step F cl clk maint D docs (C, s, m) (C', s', m') \<Longrightarrow>
  C \<subseteq> C' \<and> dom (docs m) \<subseteq> dom (docs m')"
  by (elim crawl_stepE) (auto dest: upsert_docs)

end

subsection \<open>The Redis frontier and its filter\<close>

text \<open>The one change of the database outside the interface: batches of URLs added to the filter.\<close>

definition bloom_maintenance :: "server \<Rightarrow> db \<Rightarrow> db \<Rightarrow> bool" where
  "bloom_maintenance ev s s' \<longleftrightarrow> (\<exists>urls err. BloomAddBatch ev urls s = (err, s'))"

lemma frontier_inv_mono: "frontier_inv vid A s \<Longrightarrow> B \<subseteq> A \<Longrightarrow> frontier_inv vid B s"
  by (auto simp: frontier_inv_def schedules_def covered_def owed_def)

lemma bfadd_inv: "frontier_inv vid A s \<Longrightarrow> holds vid A (Call (BFADD k u) Return) s"
  by (auto simp: store_simps bf_add_def frontier_inv_def)

lemma pipeline_inv:
  "redis_server ev \<Longrightarrow> frontier_inv vid A s \<Longrightarrow> frontier_inv vid A (snd (pipeline ev (map (BFADD k) us) s))"
proof (induction us arbitrary: s)
  case (Cons u us)
  have "frontier_inv vid A (snd (ev (Call (BFADD k u) Return) s))"
    by (rule redis_server.eval_inv [OF Cons.prems(1) bfadd_inv]) (rule Cons.prems)
  with Cons show ?case by (auto split: prod.splits)
qed simp

lemma BloomAddBatch_inv:
  assumes "redis_server ev" "frontier_inv vid A s" "BloomAddBatch ev us s = (err, s')"
  shows "frontier_inv vid A s'"
  using pipeline_inv [OF assms(1,2), of bloomKey us] assms(3)
  by (auto simp: BloomAddBatch_def Let_def split: prod.splits)

locale redis_crawl = redis_frontier eval c cl + mongo_store D docs
  for eval :: server and c :: FrontierConfig and cl :: URLClassifier
    and D :: "('e, 'm) driver" and docs :: "'m \<Rightarrow> string \<Rightarrow> Video option"

sublocale redis_crawl \<subseteq> crawl_contract
  "NewFrontier eval c (Some cl)" cl "frontier_inv (\<lambda>u. cl u = ClassVideo)" "time_ok c" D docs "bloom_maintenance eval"
  by unfold_locales
    (auto simp: bloom_maintenance_def intro: frontier_inv_mono BloomAddBatch_inv [OF redis_server_axioms])

context redis_crawl
begin

lemma contract: "crawl_contract (NewFrontier eval c (Some cl)) cl (frontier_inv (\<lambda>u. cl u = ClassVideo)) (time_ok c)
  D docs (bloom_maintenance eval)"
  by (rule crawl_contract_axioms)

end

lemma redis_contract:
  assumes "redis_server ev" "mongo_store D docs"
  shows "crawl_contract (NewFrontier ev c (Some cl)) cl (frontier_inv (\<lambda>u. cl u = ClassVideo)) (time_ok c)
    D docs (bloom_maintenance ev)"
  by (rule redis_crawl.contract [OF redis_crawl.intro [OF redis_frontier.intro [OF assms(1)] assms(2)]])

interpretation ref_crawl: redis_crawl ref_eval DefaultFrontierConfig cl ref_driver map_of for cl
  by unfold_locales

end
