(* ===== verification/Worker.thy ===== *)
theory Worker
  imports Crawl
begin

text \<open>
  \<^verbatim>\<open>internal/crawler/worker.go\<close>: what a worker does with a leased job. The fetch is the outcome of
  \<^verbatim>\<open>client.Get\<close>, with the results of the goquery selections on the parsed page; goroutines, timeouts and
  sleeps have no counterpart. A worker's loop runs over the list of what the environment does in each of
  its iterations.
\<close>

subsection \<open>Pages\<close>

datatype pageKind = pageVideo | pageListing | pageNotFound | pageRetryable | pageUnknown | pageCancelled

record pageOutcome =
  kind :: pageKind
  video :: Video
  links :: "string list"
  reason :: string
  failClass :: FailClass

definition zero_video :: Video where
  "zero_video = \<lparr>vURL = '''', vTitle = '''', vDate = '''', vDuration = 0, MatchDate = False, MatchDuration = False,
     HasCJKChar = False, HasNonEnglishChar = False, IsTarget = False\<rparr>"

text \<open>The composite literal \<open>pageOutcome{kind: k}\<close>, other fields zero.\<close>

definition outcome :: "pageKind \<Rightarrow> pageOutcome" where
  "outcome k = \<lparr>kind = k, video = zero_video, links = [], reason = '''', failClass = FailRateLimited\<rparr>"

text \<open>A parsed page: the texts and attributes that the code's selections find, in document order.\<close>

record page =
  title_text :: string                  \<comment> \<open>Find("title").Text()\<close>
  hrefs :: "string list"                \<comment> \<open>href of each a[href]\<close>
  date_text :: string                   \<comment> \<open>Find("date").First().Text()\<close>
  duration_attr :: string               \<comment> \<open>content of the video:duration meta tag, or ""\<close>

text \<open>client.Get: an error, with whether the context was cancelled by then; or a response, with its status and what goquery makes of the body (None for its error).\<close>

datatype fetch = GetErr bool | Response int "page option"

definition extractLinks :: "string list \<Rightarrow> string \<Rightarrow> string list" where
  "extractLinks hs baseURL =
     map (\<lambda>href. if HasPrefix href ''/'' \<and> \<not> HasPrefix href ''//'' then baseURL @ href else href) hs"

definition parse_video :: "unicode_tables \<Rightarrow> Config \<Rightarrow> string \<Rightarrow> page \<Rightarrow> Video" where
  "parse_video tbl cf url doc =
     (let date = TrimSpace (date_text doc);
          dur = fst (Atoi (duration_attr doc));
          v = zero_video\<lparr>vURL := url, vTitle := TrimSuffix (title_text doc) (TitleSuffix cf),
                vDate := date, vDuration := dur\<rparr>
      in Match tbl (CutoffDate cf) v)"

definition process ::
  "unicode_tables \<Rightarrow> string \<Rightarrow> fetch \<Rightarrow> ('s, 'm, 'e) Crawler \<Rightarrow> pageOutcome \<times> ('s, 'm, 'e) Crawler" where
  "process tbl url got c0 =
     (let c = Inc FetchDuration_update c0; cf = conf c
      in case got of
        GetErr cancelled \<Rightarrow>
          if cancelled then (outcome pageCancelled, c)
          else ((outcome pageRetryable)\<lparr>failClass := FailStrikeable\<rparr>, c)
      | Response status body \<Rightarrow>
          if status = 429 then ((outcome pageRetryable)\<lparr>failClass := FailRateLimited\<rparr>, c)
          else if status = 404 \<or> status = 410 then ((outcome pageNotFound)\<lparr>reason := dec status\<rparr>, c)
          else if status \<noteq> 200 then ((outcome pageRetryable)\<lparr>failClass := FailStrikeable\<rparr>, c)
          else case body of
            None \<Rightarrow> (outcome pageUnknown, c)
          | Some doc \<Rightarrow>
              if Contains (title_text doc) ''Rate Limited''
              then ((outcome pageRetryable)\<lparr>failClass := FailRateLimited\<rparr>, c)
              else
                let c1 = Inc PagesProcessed_update c; ls = extractLinks (hrefs doc) (BaseUrl cf)
                in if \<not> Contains url (VideoPattern cf)
                   then ((outcome pageListing)\<lparr>links := ls\<rparr>, c1)
                   else ((outcome pageVideo)\<lparr>video := parse_video tbl cf url doc, links := ls\<rparr>,
                         Inc VideoFound_update c1))"

subsection \<open>Resolving a job\<close>

text \<open>resolve: the error of the transition is swallowed when stale and counted otherwise.\<close>

definition resolve :: "(time \<Rightarrow> 's \<Rightarrow> (gerr + 'r) \<times> 's) \<Rightarrow> ('s, 'm, 'e) crawler_op" where
  "resolve op c =
     (case fcall op c of
        (Inr _, c1) \<Rightarrow> c1
      | (Inl e, c1) \<Rightarrow> if e = ErrStaleLease then c1 else Inc ResolveErrors_update c1)"

definition untilFor :: "URLClass \<Rightarrow> duration \<Rightarrow> time \<Rightarrow> time" where
  "untilFor class quarantine now = (if class = ClassVideo then zero_time else now + quarantine)"

text \<open>Whether go-redis makes the error a redis.Error: what a server replied, a nil reply included.\<close>

fun is_redis_error :: "gerr \<Rightarrow> bool" where
  "is_redis_error (RedisErr (ServerError msg)) = True"
| "is_redis_error RedisNil = True"
| "is_redis_error _ = False"

definition maybeFatalAdmission :: "gerr \<Rightarrow> ('s, 'm, 'e) crawler_op" where
  "maybeFatalAdmission e c = (if is_redis_error e then stopFn c else c)"

definition recordVideo :: "Video \<Rightarrow> ('s, 'm, 'e) crawler_op" where
  "recordVideo v c0 =
     (let c = c0\<lparr>count := count c0 + 1\<rparr>
      in if \<not> IsTarget v then c else Inc TargetsFound_update (c\<lparr>targets := targets c @ [v]\<rparr>))"

definition handleOutcome :: "Job \<Rightarrow> pageOutcome \<Rightarrow> ('s, 'm, 'e) crawler_op" where
  "handleOutcome job out c =
     (case kind out of
        pageVideo \<Rightarrow>
          (let (err, m') = Upsert (mongo c) (video out) (mstate c); c0 = c\<lparr>mstate := m'\<rparr>
           in case err of
                Some e \<Rightarrow> resolve (\<lambda>_. Nack (frontier c0) job) c0
              | None \<Rightarrow>
                  (case enqueueChildren (links out) (recordVideo (video out) c0) of
                     ((_, Some e), c1) \<Rightarrow>
                       maybeFatalAdmission e (resolve (\<lambda>_. Nack (frontier c1) job) c1)
                   | ((_, None), c1) \<Rightarrow> resolve (\<lambda>_. Ack (frontier c1) job) c1))
      | pageListing \<Rightarrow>
          (case enqueueChildren (links out) c of
             ((_, Some e), c1) \<Rightarrow> maybeFatalAdmission e (resolve (\<lambda>_. Nack (frontier c1) job) c1)
           | ((n, None), c1) \<Rightarrow> resolve (\<lambda>now. CompleteListing (frontier c1) now job n) c1)
      | pageNotFound \<Rightarrow>
          (let quarantine = wrap64 (QuarantineListingHours (conf c) * time_Hour)
           in resolve (\<lambda>now. Terminal (frontier c) job (reason out) (untilFor (jobClass job) quarantine now)) c)
      | pageRetryable \<Rightarrow> resolve (\<lambda>now. Fail (frontier c) now job (failClass out)) c
      | pageUnknown \<Rightarrow> resolve (\<lambda>now. Fail (frontier c) now job FailStrikeable) c
      | pageCancelled \<Rightarrow> resolve (\<lambda>_. Nack (frontier c) job) c)"

subsection \<open>The loop of a worker\<close>

text \<open>
  What the environment does in one iteration: whether the context is done by the check at its head
  (besides stopFn), whether the limiter's wait is cancelled, and what the fetch yields.
\<close>

record turn =
  ctx_done :: bool
  wait_err :: bool
  fetched :: fetch

fun worker :: "unicode_tables \<Rightarrow> turn list \<Rightarrow> ('s, 'm, 'e) crawler_op" where
  "worker tbl [] c = c"
| "worker tbl (t # ts) c =
     (if stopped c \<or> ctx_done t then c
      else case fcall (Lease (frontier c)) c of
        (Inl e, c1) \<Rightarrow> worker tbl ts (Inc LeaseErrors_update c1)
      | (Inr None, c1) \<Rightarrow> worker tbl ts c1
      | (Inr (Some job), c1) \<Rightarrow>
          if wait_err t then resolve (\<lambda>_. Nack (frontier c1) job) c1
          else let (out, c2) = process tbl (jobURL job) (fetched t) c1
               in worker tbl ts (handleOutcome job out c2))"

text \<open>The test worker counts no lease errors and also ends once enough videos have been seen.\<close>

definition maxTestVideos :: int where "maxTestVideos = 5"

fun workerTest :: "unicode_tables \<Rightarrow> turn list \<Rightarrow> ('s, 'm, 'e) crawler_op" where
  "workerTest tbl [] c = c"
| "workerTest tbl (t # ts) c =
     (if stopped c \<or> ctx_done t \<or> count c \<ge> maxTestVideos then c
      else case fcall (Lease (frontier c)) c of
        (Inl e, c1) \<Rightarrow> workerTest tbl ts c1
      | (Inr None, c1) \<Rightarrow> workerTest tbl ts c1
      | (Inr (Some job), c1) \<Rightarrow>
          if wait_err t then resolve (\<lambda>_. Nack (frontier c1) job) c1
          else let (out, c2) = process tbl (jobURL job) (fetched t) c1
               in workerTest tbl ts (handleOutcome job out c2))"

text \<open>
  RunTest: once the seed is admitted, it polls until enough videos have been seen, the deadline has passed,
  or the frontier is idle or unreadable; its context is cancelled on every way out. A poll says whether the deadline has passed and
  what the other goroutines do until the next one.
\<close>

fun test_wait :: "(bool \<times> ('s, 'm, 'e) crawler_op) list \<Rightarrow> ('s, 'm, 'e) crawler_op" where
  "test_wait [] c = c"
| "test_wait ((deadline, others) # ps) c =
     (if \<not> (count c < maxTestVideos \<and> \<not> stopped c \<and> \<not> deadline) then c
      else case fcall (\<lambda>_. Idle (frontier c)) c of
        (Inl e, c1) \<Rightarrow> c1
      | (Inr idle, c1) \<Rightarrow> if idle then c1 else test_wait ps (others c1))"

definition RunTest :: "string \<Rightarrow> (bool \<times> ('s, 'm, 'e) crawler_op) list \<Rightarrow> ('s, 'm, 'e) crawler_op" where
  "RunTest seedURL polls c =
     (case admitURL seedURL c of
        (Inl e, c1) \<Rightarrow> stopFn c1
      | (Inr _, c1) \<Rightarrow> stopFn (test_wait polls c1))"

text \<open>Run: the proxy of each of the workers it starts.\<close>

definition Run_proxies :: "Config \<Rightarrow> string list" where
  "Run_proxies cf =
     map (\<lambda>i. if i < length (StaticProxyURLs cf) then StaticProxyURLs cf ! i else '''') [0..<nat (Workers cf)]"

end
