(* ===== verification/Worker_Runs.thy ===== *)
theory Worker_Runs
  imports Worker
begin

text \<open>
  The calls of a worker as steps of the crawl: what pages and calls leave alone, and that each kind of
  call respects the guards of \<open>crawl_step\<close>. The guards depend on the job, the classifier, the clock and
  documents that are never removed. The lemmas are proved for every frontier and store that satisfy
  \<open>crawl_contract\<close>.
\<close>

lemma Match_url [simp]: "vURL (Match tbl cutoff v) = vURL v"
  by (simp add: Match_def Let_def)

lemma parse_video_url [simp]: "vURL (parse_video tbl cf url doc) = url"
  by (simp add: parse_video_def Let_def zero_video_def)

lemma outcome_simps [simp]: "kind (outcome k) = k" "reason (outcome k) = ''''"
  by (simp_all add: outcome_def)

text \<open>What process promises about the outcome it returns.\<close>

definition outcome_fits :: "Config \<Rightarrow> string \<Rightarrow> pageOutcome \<Rightarrow> bool" where
  "outcome_fits cf url out \<longleftrightarrow>
     (kind out = pageVideo \<longrightarrow> Contains url (VideoPattern cf) \<and> vURL (video out) = url) \<and>
     (kind out = pageListing \<longrightarrow> \<not> Contains url (VideoPattern cf)) \<and>
     (kind out = pageNotFound \<longrightarrow> reason out = ''404'' \<or> reason out = ''410'')"

lemma dec_status: "dec 404 = ''404''" "dec 410 = ''410''"
  by (simp_all add: dec_def dec_nat.simps digit_chars)

lemma process_fits: "process tbl url got c = (out, c') \<Longrightarrow> outcome_fits (conf c) url out"
  by (auto simp: process_def Let_def outcome_fits_def dec_status meter_def
      split: fetch.splits option.splits if_splits)

lemma process_frame: "process tbl url got c = (out, c') \<Longrightarrow> \<exists>f. c' = meter f c"
  by (auto simp: process_def Let_def meter_def comp_def split: fetch.splits option.splits if_splits
      intro: exI [of _ "FetchDuration_update (\<lambda>n. n + 1)"])

lemma meter_more [simp]:
  "conf (meter f c) = conf c" "frontier (meter f c) = frontier c" "mongo (meter f c) = mongo c"
  "mstate (meter f c) = mstate c" "targets (meter f c) = targets c" "count (meter f c) = count c"
  by (simp_all add: meter_def)

lemma stopFn_more [simp]:
  "conf (stopFn c) = conf c" "frontier (stopFn c) = frontier c" "mongo (stopFn c) = mongo c"
  "mstate (stopFn c) = mstate c" "targets (stopFn c) = targets c" "count (stopFn c) = count c"
  by (simp_all add: stopFn_def)

lemma fcall_more: "fcall op c = (r, c') \<Longrightarrow>
  conf c' = conf c \<and> frontier c' = frontier c \<and> mongo c' = mongo c \<and> mstate c' = mstate c \<and>
  targets c' = targets c \<and> count c' = count c"
  by (auto simp: fcall_def split: prod.splits)

lemma fcall_clock: "fcall op c = (r, c') \<Longrightarrow> sset (clock c') \<subseteq> sset (clock c)"
  using fcall_frame by (fastforce dest: sset_stl)

text \<open>A crawler whose collaborators are those of the contract, with clock readings it allows.\<close>

definition quarantine_of :: "Config \<Rightarrow> duration" where
  "quarantine_of cf = wrap64 (QuarantineListingHours cf * time_Hour)"

definition ready ::
  "'s Frontier \<Rightarrow> URLClassifier \<Rightarrow> (time \<Rightarrow> bool) \<Rightarrow> ('e, 'm) driver \<Rightarrow> ('s, 'm, 'e) Crawler \<Rightarrow> bool" where
  "ready F cl clk D c \<longleftrightarrow>
     frontier c = F \<and> mongo c = D \<and> (\<forall>u. cl u = ClassVideo \<longleftrightarrow> Contains u (VideoPattern (conf c))) \<and>
     (\<forall>t \<in> sset (clock c). clk t \<and> (\<forall>k. until_ok k (untilFor k (quarantine_of (conf c)) t)))"

lemma ready_meter [simp]: "ready F cl clk D (meter f c) \<longleftrightarrow> ready F cl clk D c"
  by (simp add: ready_def)

lemma ready_stopFn [simp]: "ready F cl clk D (stopFn c) \<longleftrightarrow> ready F cl clk D c"
  by (simp add: ready_def)

lemma ready_fcall: "fcall op c = (r, c') \<Longrightarrow> ready F cl clk D c \<Longrightarrow> ready F cl clk D c'"
  using fcall_more [of op c r c'] fcall_clock [of op c r c'] by (auto simp: ready_def)

context crawl_contract
begin

definition sim :: "string set \<Rightarrow> ('s, 'm, 'e) Crawler \<Rightarrow> string set \<Rightarrow> ('s, 'm, 'e) Crawler \<Rightarrow> bool" where
  "sim C c C' c' \<longleftrightarrow> crawl_steps F cl clk maint D docs (C, fstate c, mstate c) (C', fstate c', mstate c') \<and>
     ready F cl clk D c' \<and> conf c' = conf c"

lemma sim_refl: "ready F cl clk D c \<Longrightarrow> sim C c C c"
  by (simp add: sim_def)

lemma sim_trans: "sim C c C1 c1 \<Longrightarrow> sim C1 c1 C2 c2 \<Longrightarrow> sim C c C2 c2"
  by (auto simp: sim_def)

lemma sim_ready: "sim C c C' c' \<Longrightarrow> ready F cl clk D c' \<and> conf c' = conf c"
  by (simp add: sim_def)

lemma sim_meter [simp]: "sim C c C' (meter f c') \<longleftrightarrow> sim C c C' c'" "sim C (meter f c) C' c' \<longleftrightarrow> sim C c C' c'"
  by (simp_all add: sim_def)

lemma sim_stopFn [simp]: "sim C c C' (stopFn c') \<longleftrightarrow> sim C c C' c'"
  by (simp add: sim_def)

lemma sim_call:
  assumes "ready F cl clk D c" and "fcall op c = (r, c')"
    and "frontier_step F cl clk (C - dom (docs (mstate c)), fstate c) (A, fstate c')" "C - dom (docs (mstate c)) \<subseteq> A"
  shows "sim C c (C \<union> A) c'"
proof -
  have "crawl_step F cl clk maint D docs (C, fstate c, mstate c) (C \<union> A, fstate c', mstate c)"
    using assms(3,4) by (rule crawl_step.frontier_call)
  then show ?thesis
    using fcall_more [OF assms(2)] ready_fcall [OF assms(2,1)] by (auto simp: sim_def)
qed

lemma sim_call_same:
  assumes "ready F cl clk D c" and "fcall op c = (r, c')"
    and "frontier_step F cl clk (C - dom (docs (mstate c)), fstate c) (C - dom (docs (mstate c)), fstate c')"
  shows "sim C c C c'"
  using sim_call [OF assms] by (simp add: Un_absorb2)

lemma admit_sim:
  assumes "ready F cl clk D c" and "admitURL raw c = (r, c')"
  shows "\<exists>C'. sim C c C' c'"
proof -
  let ?url = "canonicalize (conf c) raw" and ?A = "C - dom (docs (mstate c))"
  have F: "frontier c = F" and cl: "cl u = ClassVideo \<longleftrightarrow> Contains u (VideoPattern (conf c))" for u
    using assms(1) by (auto simp: ready_def)
  consider (none) "?url = ''''" | (video) "?url \<noteq> ''''" "cl ?url = ClassVideo"
    | (listing) "?url \<noteq> ''''" "cl ?url \<noteq> ClassVideo" by blast
  then show ?thesis
  proof cases
    case none
    with assms sim_refl show ?thesis by (auto simp: admitURL_def)
  next
    case video
    then have call: "fcall (\<lambda>now. AdmitVideo F now ?url) c = (r, c')"
      using assms(2) cl F by (simp add: admitURL_def Let_def)
    have "frontier_step F cl clk (?A, fstate c) (claim ?url r ?A, fstate c')"
      using video(2) fcall_result [OF call] by (rule frontier_step.admit_video)
    moreover have "?A \<subseteq> claim ?url r ?A" by (auto simp: claim_def)
    ultimately show ?thesis using sim_call [OF assms(1) call] by blast
  next
    case listing
    then have call: "fcall (\<lambda>now. AdmitListing F now ?url) c = (r, c')"
      using assms(2) cl F by (simp add: admitURL_def Let_def)
    have "frontier_step F cl clk (?A, fstate c) (?A, fstate c')"
      using listing(2) fcall_result [OF call] by (rule frontier_step.admit_listing)
    from sim_call_same [OF assms(1) call this] show ?thesis by auto
  qed
qed

text \<open>One transition of a leased job that leaves what is owed as it is.\<close>

lemma resolve_sim:
  assumes "ready F cl clk D c"
    and "\<And>r s'. op (shd (clock c)) (fstate c) = (r, s') \<Longrightarrow>
      frontier_step F cl clk (C - dom (docs (mstate c)), fstate c) (C - dom (docs (mstate c)), s')"
  shows "sim C c C (resolve op c)"
proof -
  obtain r c1 where call: "fcall op c = (r, c1)" by fastforce
  from sim_call_same [OF assms(1) call assms(2) [OF fcall_result [OF call]]] call
  show ?thesis by (auto simp: resolve_def split: sum.splits)
qed

lemma ack_sim:
  assumes "ready F cl clk D c" "job_ok cl job" "jobClass job = ClassVideo" "jobURL job \<in> dom (docs (mstate c))"
  shows "sim C c C (resolve (\<lambda>_. Ack F job) c)"
proof (rule resolve_sim [OF assms(1)])
  fix r s'
  assume "Ack F job (fstate c) = (r, s')"
  from frontier_step.ack [OF assms(2,3) this, of clk "C - dom (docs (mstate c))"] assms(4)
  show "frontier_step F cl clk (C - dom (docs (mstate c)), fstate c) (C - dom (docs (mstate c)), s')" by simp
qed

lemma crawl_steps_grow:
  "crawl_steps F cl clk maint D docs (C, s, m) (C', s', m') \<Longrightarrow> C \<subseteq> C' \<and> dom (docs m) \<subseteq> dom (docs m')"
proof (induction "(C', s', m')" arbitrary: C' s' m' rule: rtranclp_induct)
  case (step q)
  obtain C1 s1 m1 where q: "q = (C1, s1, m1)" by (metis prod.exhaust)
  from crawl_step_grows [OF step(2) [unfolded q]] step(3) [OF q] show ?case by blast
qed simp

lemma sim_docs: "sim C c C' c' \<Longrightarrow> C \<subseteq> C' \<and> dom (docs (mstate c)) \<subseteq> dom (docs (mstate c'))"
  unfolding sim_def using crawl_steps_grow by blast

text \<open>A lease hands out a job of the classifier's, and owes nothing new.\<close>

lemma lease_sim:
  assumes "ready F cl clk D c" and "crawl_inv (C, fstate c, mstate c)"
    and "fcall (Lease (frontier c)) c = (r, c')"
  shows "sim C c C c'" and "r = Inr (Some job) \<Longrightarrow> job_ok cl job"
proof -
  have call: "fcall (Lease F) c = (r, c')" using assms(1,3) by (simp add: ready_def)
  have "frontier_step F cl clk (C - dom (docs (mstate c)), fstate c) (C - dom (docs (mstate c)), fstate c')"
    by (rule frontier_step.lease [OF fcall_result [OF call]])
  then show "sim C c C c'" by (rule sim_call_same [OF assms(1) call])
  show "r = Inr (Some job) \<Longrightarrow> job_ok cl job"
    using Lease_job fcall_result [OF call] assms(2) by (auto simp: crawl_inv_def)
qed

lemma sim_inv: "sim C c C' c' \<Longrightarrow> crawl_inv (C, fstate c, mstate c) \<Longrightarrow> crawl_inv (C', fstate c', mstate c')"
  by (auto simp: sim_def dest: crawl_steps_inv)

end

end
