(* ===== verification/Auth.thy ===== *)
theory Auth
  imports Go_Strings
begin

text \<open>
  \<^verbatim>\<open>internal/auth/login.go\<close>: the HTTP client of a worker, the requests it builds and the outcome of the
  login. \<^verbatim>\<open>net/http\<close> and \<^verbatim>\<open>net/url\<close> do the rest: parsing a URL (None for its error) and sending a request
  are arguments here.
\<close>

definition fetchTimeout :: int where "fetchTimeout = 30 * time_Second"

record ('u, 'j) Client =
  cl_jar :: 'j
  cl_proxy :: "'u option"        \<comment> \<open>None: a direct connection, what ProxyURL(nil) means\<close>
  cl_timeout :: int

definition NewClient :: "(string \<Rightarrow> 'u option) \<Rightarrow> 'j \<Rightarrow> string \<Rightarrow> ('u, 'j) Client" where
  "NewClient parse jar proxyURL =
     \<lparr>cl_jar = jar, cl_proxy = (if proxyURL \<noteq> '''' then parse proxyURL else None), cl_timeout = fetchTimeout\<rparr>"

record 'u request =
  req_method :: string
  req_url :: 'u
  req_headers :: "(string \<times> string) list"
  req_form :: "(string \<times> string) list"

definition Get :: "(string \<Rightarrow> 'u option) \<Rightarrow> ('u request \<Rightarrow> 'e + 'r) \<Rightarrow> 'e \<Rightarrow> string \<Rightarrow> 'e + 'r" where
  "Get parse send bad_url url =
     (case parse url of
        None \<Rightarrow> Inl bad_url
      | Some u \<Rightarrow> send \<lparr>req_method = ''GET'', req_url = u,
          req_headers =
            [(''User-Agent'', ''Mozilla/5.0 (Windows NT 10.0; Win64; x64) AppleWebKit/537.36 Chrome/120 Safari/537.36''),
             (''Accept'', ''text/html,application/xhtml+xml,application/xml;q=0.9,*/*;q=0.8''),
             (''Accept-Language'', ''en-US,en;q=0.5'')],
          req_form = []\<rparr>)"

text \<open>Login: the status of the response to the form, or the error of sending it.\<close>

datatype 'e login_err = SendFailed 'e | LoginStatus int

definition Login :: "((string \<times> string) list \<Rightarrow> string \<Rightarrow> 'e + int) \<Rightarrow> string \<Rightarrow> string \<Rightarrow> string \<Rightarrow> 'e login_err option" where
  "Login post_form loginURL username password =
     (case post_form [(''username'', username), (''password'', password), (''submit_login'', ''Sign In'')] loginURL of
        Inl e \<Rightarrow> Some (SendFailed e)
      | Inr status \<Rightarrow> if status \<noteq> 200 then Some (LoginStatus status) else None)"

end
