(* ===== verification/Startup.thy ===== *)
theory Startup
  imports Worker_Runs Auth
begin

text \<open>
  \<^verbatim>\<open>cmd/crawler/main.go\<close>: the seed list, the reconciliation of the filter with the video store, and the
  order in which production startup does its work and gives up. Connecting, logging in and the signal
  handler are outcomes of library calls and arguments here; \<^verbatim>\<open>log.Fatal\<close> ends the process.
\<close>

definition bloomReconcileBatch :: int where "bloomReconcileBatch = 5000"

text \<open>readSeedURLs: None for a file that cannot be read.\<close>

fun seed_lines :: "string list \<Rightarrow> string list \<Rightarrow> string list" where
  "seed_lines urls [] = urls"
| "seed_lines urls (line # ls) =
     (let line' = TrimSpace line in seed_lines (if line' \<noteq> '''' then urls @ [line'] else urls) ls)"

definition readSeedURLs :: "string option \<Rightarrow> string \<Rightarrow> string list" where
  "readSeedURLs file baseURL =
     (case file of
        None \<Rightarrow> [baseURL]
      | Some data \<Rightarrow> seed_lines [baseURL] (Split data (CHR 0x0A)))"

text \<open>Go's \<^verbatim>\<open>error\<close> values that meet in the reconciliation.\<close>

datatype 'd go_error = FromRedis rerr | FromDriver 'd

text \<open>The callback's state: the count and the database. The result is the error that ends the process.\<close>

definition reconcile_batch ::
  "server \<Rightarrow> string list \<Rightarrow> int \<times> db \<Rightarrow> 'd go_error option \<times> (int \<times> db)" where
  "reconcile_batch ev urls b =
     (case b of (n, s) \<Rightarrow>
        let (err, s') = BloomAddBatch ev urls s in (map_option FromRedis err, (n + int (length urls), s')))"

definition reconcileBloomFromMongo ::
  "server \<Rightarrow> ('d go_error, 'm) driver \<Rightarrow> 'm \<Rightarrow> db \<Rightarrow> 'd go_error option \<times> (int \<times> db)" where
  "reconcileBloomFromMongo ev D m s = EachVideoURL D bloomReconcileBatch (reconcile_batch ev) m (0, s)"

text \<open>
  The part of main from BloomInit to the start of the goroutines, in production mode: the outcome of
  BF.RESERVE, the read of BF.INFO, the contents of seeds.txt, and the \<^verbatim>\<open>-fresh\<close> flag. The result is the
  stage at which the process ends, or the crawler the goroutines start with.
\<close>

datatype fatal = LogFileFailed | RedisFailed | MongoFailed | LoginFailed
  | BloomInitFailed | BloomVerifyFailed | ReconcileFailed | SeedListingFailed

definition production_start ::
  "server \<Rightarrow> string option \<Rightarrow> 'd + bloomStats \<Rightarrow> string option \<Rightarrow> bool \<Rightarrow>
   (db, 'm, 'd go_error) Crawler \<Rightarrow> fatal option \<times> (db, 'm, 'd go_error) Crawler" where
  "production_start ev reserve info file fresh c =
     (case BloomInit reserve of
        (_, Some e) \<Rightarrow> (Some BloomInitFailed, c)
      | (created, None) \<Rightarrow>
          (case BloomVerify info of
             Some e \<Rightarrow> (Some BloomVerifyFailed, c)
           | None \<Rightarrow>
               let (err, (n, s1)) = reconcileBloomFromMongo ev (mongo c) (mstate c) (fstate c);
                   c1 = c\<lparr>fstate := s1\<rparr>
               in case err of
                    Some e \<Rightarrow> (Some ReconcileFailed, c1)
                  | None \<Rightarrow>
                      (case fcall (\<lambda>_. SeedListing (frontier c1) (BaseUrl (conf c1))) c1 of
                         (Inl e, c2) \<Rightarrow> (Some SeedListingFailed, c2)
                       | (Inr _, c2) \<Rightarrow>
                           let c3 = Resume c2
                           in (None, if fresh then snd (Seed file c3) else c3))))"

text \<open>The crawler that main builds: classifier and frontier from the configuration and the seed file.\<close>

definition main_crawler ::
  "server \<Rightarrow> Config \<Rightarrow> string option \<Rightarrow> ('d go_error, 'm) driver \<Rightarrow> 'm \<Rightarrow> db world \<Rightarrow> (db, 'm, 'd go_error) Crawler" where
  "main_crawler ev cf file D m w =
     (let cl = NewURLClassifier cf (readSeedURLs file (BaseUrl cf))
      in New_crawler cf D m (NewFrontier ev (frontierConfig cf) (Some cl)) w)"

text \<open>The crawler's login, by a client without a proxy; what the form is answered is an argument.\<close>

definition Crawler_Login ::
  "((string \<times> string) list \<Rightarrow> string \<Rightarrow> 'd + int) \<Rightarrow> ('s, 'm, 'e) Crawler \<Rightarrow> 'd login_err option" where
  "Crawler_Login post_form c = Login post_form (LoginURL (conf c)) (Username (conf c)) (Password (conf c))"

text \<open>
  Test mode: its own database index, a flushed frontier, the bounded run and the saved targets (None if it
  does not get that far).
\<close>

definition redisDB :: "bool \<Rightarrow> int" where
  "redisDB testMode = (if testMode then 1 else 0)"

definition test_mode ::
  "rerr option \<Rightarrow> string option \<Rightarrow> (bool \<times> (db, 'm, 'e) crawler_op) list \<Rightarrow> 'e option \<Rightarrow> (db, 'm, 'e) Crawler \<Rightarrow>
   fatal option \<times> (db, 'm, 'e) Crawler \<times> ('e + Video list) option" where
  "test_mode flush reserve polls create_err c =
     (let c1 = InitTest flush c
      in case BloomInit reserve of
           (_, Some e) \<Rightarrow> (Some BloomInitFailed, c1, None)
         | (_, None) \<Rightarrow>
             let c2 = RunTest (TestUrl (conf c1)) polls c1 in (None, c2, Some (SaveTest create_err c2)))"

text \<open>
  main up to the start of the goroutines (production) or its end (test mode): the flags, the outcomes of
  opening the log file and connecting, the answer to the login form, and the inputs of the two modes. Redis
  has several databases, and the program works on the one of its mode.
\<close>

record ('m, 'd) launch =
  test_flag :: bool
  fresh_flag :: bool
  log_err :: bool
  redis_err :: bool
  mongo_err :: bool
  post_form :: "(string \<times> string) list \<Rightarrow> string \<Rightarrow> 'd + int"
  bf_reserve :: "string option"
  bf_info :: "'d + bloomStats"
  bf_flush :: "rerr option"
  test_polls :: "(bool \<times> (db, 'm, 'd go_error) crawler_op) list"
  save_err :: "'d go_error option"

definition main_run ::
  "server \<Rightarrow> env \<Rightarrow> string option \<Rightarrow> ('d go_error, 'm) driver \<Rightarrow> 'm \<Rightarrow> (int \<Rightarrow> db) \<Rightarrow> unit world \<Rightarrow> ('m, 'd) launch \<Rightarrow>
   fatal option \<times> (db, 'm, 'd go_error) Crawler \<times> (int \<Rightarrow> db)" where
  "main_run ev env file D m dbs w l =
     (let cf = Load env; i = redisDB (test_flag l);
          c = main_crawler ev cf file D m
                \<lparr>fstate = dbs i, metrics = metrics w, stopped = stopped w, clock = clock w\<rparr>;
          (f, c') =
            (if log_err l then (Some LogFileFailed, c)
             else if redis_err l then (Some RedisFailed, c)
             else if mongo_err l then (Some MongoFailed, c)
             else if Crawler_Login (post_form l) c \<noteq> None then (Some LoginFailed, c)
             else if test_flag l then
               (let (f, c', saved) = test_mode (bf_flush l) (bf_reserve l) (test_polls l) (save_err l) c in (f, c'))
             else production_start ev (bf_reserve l) (bf_info l) file (fresh_flag l) c)
      in (f, c', dbs(i := fstate c')))"

text \<open>A test run, which flushes its database, leaves the production database alone.\<close>

lemma test_run_isolated:
  "test_flag l \<Longrightarrow> main_run ev env file D m dbs w l = (f, c, dbs') \<Longrightarrow> dbs' 0 = dbs 0"
  by (auto simp: main_run_def Let_def redisDB_def split: prod.splits)

subsection \<open>The filter after startup\<close>

lemma reconcile_batch_adds:
  assumes "redis_server ev" "reconcile_batch ev us b = (None, b')"
  shows "dbloom (snd b) bloomKey \<union> set us \<subseteq> dbloom (snd b') bloomKey"
proof -
  obtain n s where b: "b = (n, s)" by fastforce
  obtain err s' where add: "BloomAddBatch ev us s = (err, s')" by fastforce
  with assms(2) b have "err = None" "b' = (n + int (length us), s')" by (auto simp: reconcile_batch_def)
  with BloomAddBatch_adds [OF assms(1) add] b show ?thesis by auto
qed

text \<open>
  C19: reconciliation. When it reports no error, every video the store holds is in the filter, and what
  was there before still is; an admission of such a video is then never answered New, whatever the server
  does.
\<close>

theorem reconcile_covers:
  assumes "redis_server ev" and "mongo_store D docs"
    and "reconcileBloomFromMongo ev D m s = (None, n, s')"
  shows "dom (docs m) \<subseteq> dbloom s' bloomKey \<and> dbloom s bloomKey \<subseteq> dbloom s' bloomKey \<and>
    (\<forall>u \<in> dom (docs m). \<forall>f now r s''. client f = ev \<longrightarrow> fr_AdmitVideo f now u s' = (Inr r, s'') \<longrightarrow> r = Suppressed)"
proof -
  have each: "EachVideoURL D bloomReconcileBatch (reconcile_batch ev) m (0, s) = (None, n, s')"
    using assms(3) by (simp add: reconcileBloomFromMongo_def)
  have "\<exists>us. FindIds D m = Inr (map Inr us, None) \<and>
      dbloom (snd (0 :: int, s)) bloomKey \<union> set us \<subseteq> dbloom (snd (n, s')) bloomKey"
    using reconcile_batch_adds [OF assms(1)] each by (rule EachVideoURL_collects)
  then obtain us where us: "FindIds D m = Inr (map Inr us, None)" "dbloom s bloomKey \<union> set us \<subseteq> dbloom s' bloomKey"
    by auto
  then have "dom (docs m) \<subseteq> dbloom s' bloomKey" "dbloom s bloomKey \<subseteq> dbloom s' bloomKey"
    using mongo_store.ids_complete [OF assms(2) us(1)] by auto
  moreover have "r = Suppressed"
    if "u \<in> dbloom s' bloomKey" "client f = ev" "fr_AdmitVideo f now u s' = (Inr r, s'')" for u f now r s''
    using admit_video_reply(2) [of f now u s' r s''] that assms(1) by (simp add: bloomed_def)
  ultimately show ?thesis by blast
qed


theorem reconcile_covers_witness:
  "\<exists>n s'. reconcileBloomFromMongo ref_eval (ref_driver :: (unit go_error, (string \<times> Video) list) driver)
       [(''v'', sample_video)] empty_db = (None, n, s') \<and> ''v'' \<in> dbloom s' bloomKey"
proof -
  let ?D = "ref_driver :: (unit go_error, (string \<times> Video) list) driver"
  have "\<exists>n s'. reconcileBloomFromMongo ref_eval ?D [(''v'', sample_video)] empty_db = (None, n, s')"
    by (simp add: reconcileBloomFromMongo_def EachVideoURL_def bloomReconcileBatch_def ref_driver_def
        reconcile_batch_def BloomAddBatch_def empty_db_def)
  then obtain n s' where "reconcileBloomFromMongo ref_eval ?D [(''v'', sample_video)] empty_db = (None, n, s')" by blast
  moreover have "mongo_store ?D map_of" by unfold_locales
  moreover have "redis_server ref_eval" by unfold_locales
  ultimately show ?thesis using reconcile_covers [of ref_eval ?D map_of "[(''v'', sample_video)]"] by fastforce
qed

subsection \<open>Startup as a run of the crawl\<close>

context crawl_contract
begin

lemma seed_sim: "ready F cl clk D c \<Longrightarrow> \<exists>C'. sim C c C' (snd (seed_loop n lines c))"
proof (induction lines arbitrary: n c C)
  case Nil
  then show ?case by (auto intro: sim_refl)
next
  case (Cons line rest)
  show ?case
  proof (cases "TrimSpace line = ''''")
    case True
    with Cons show ?thesis by simp
  next
    case False
    obtain r c1 where admit: "admitURL line c = (r, c1)" by fastforce
    then obtain C1 where C1: "sim C c C1 c1" using admit_sim Cons.prems by blast
    from Cons.IH [OF conjunct1 [OF sim_ready [OF C1]]]
    have "\<exists>C'. sim C c C' (snd (seed_loop k rest c1))" for k using sim_trans [OF C1] by blast
    with False admit show ?thesis by (auto split: sum.split)
  qed
qed

lemma Resume_sim: "sim C c C' (Resume c') \<longleftrightarrow> sim C c C' c'"
  by (simp add: sim_def Resume_def ready_def split: sum.split prod.split option.split)

lemma maint_sim:
  assumes "ready F cl clk D c" and "maint\<^sup>*\<^sup>* (fstate c) s"
  shows "sim C c C (c\<lparr>fstate := s\<rparr>)"
proof -
  have "crawl_steps F cl clk maint D docs (C, fstate c, mstate c) (C, s, mstate c)"
    using assms(2) by (induction rule: rtranclp_induct) (auto intro: rtranclp.rtrancl_into_rtrancl crawl_step.maintenance)
  with assms(1) show ?thesis by (simp add: sim_def ready_def)
qed

end

lemma reconcile_maintains: "(bloom_maintenance ev)\<^sup>*\<^sup>* s (snd (snd (reconcileBloomFromMongo ev D m s)))"
  unfolding reconcileBloomFromMongo_def
proof (rule EachVideoURL_keeps [of "\<lambda>b. (bloom_maintenance ev)\<^sup>*\<^sup>* s (snd b)"])
  fix us and b :: "int \<times> db"
  assume "(bloom_maintenance ev)\<^sup>*\<^sup>* s (snd b)"
  moreover have "bloom_maintenance ev (snd b) (snd (snd (reconcile_batch ev us b)))"
    unfolding bloom_maintenance_def reconcile_batch_def
    by (cases b; cases "BloomAddBatch ev us (snd b)") auto
  ultimately show "(bloom_maintenance ev)\<^sup>*\<^sup>* s (snd (snd (reconcile_batch ev us b)))"
    by (rule rtranclp.rtrancl_into_rtrancl)
qed simp

lemma start_runs:
  assumes "redis_server ev" and "mongo_store D docs" and "conf k = cf"
    and "ready (NewFrontier ev c (Some cl)) cl (time_ok c) D k" and "cl (BaseUrl (conf k)) \<noteq> ClassVideo"
    and "production_start ev reserve info seeds fresh k = (res, k')"
  shows "\<exists>C'. crawl_contract.sim (NewFrontier ev c (Some cl)) cl (time_ok c) D docs (bloom_maintenance ev) C k C' k'"
proof -
  let ?F = "NewFrontier ev c (Some cl)"
  let ?sim = "crawl_contract.sim ?F cl (time_ok c) D docs (bloom_maintenance ev)"
  note ct = redis_contract [OF assms(1,2), of c cl]
  note refl = crawl_contract.sim_refl [OF ct assms(4)] and trans = crawl_contract.sim_trans [OF ct]
  obtain err n s1 where rec: "reconcileBloomFromMongo ev (mongo k) (mstate k) (fstate k) = (err, n, s1)"
    by (metis prod.exhaust)
  let ?k1 = "k\<lparr>fstate := s1\<rparr>"
  have k1: "?sim C k C ?k1"
    using crawl_contract.maint_sim [OF ct assms(4)] reconcile_maintains [of ev "fstate k" "mongo k" "mstate k"] rec by simp
  then have ready1: "ready ?F cl (time_ok c) D ?k1" using crawl_contract.sim_ready [OF ct] by blast
  obtain r k2 where seed: "fcall (\<lambda>_. SeedListing ?F (BaseUrl (conf ?k1))) ?k1 = (r, k2)" by fastforce
  have "frontier_step ?F cl (time_ok c) (A, fstate ?k1) (A, fstate k2)" for A
    by (rule frontier_step.seed_listing [OF _ fcall_result [OF seed]]) (use assms(5) in simp)
  then have k2: "?sim C k C k2"
    by (intro trans [OF k1] crawl_contract.sim_call_same [OF ct ready1 seed])
  then have k3: "?sim C k C (Resume k2)" by (simp add: crawl_contract.Resume_sim [OF ct])
  then obtain C4 where "?sim C (Resume k2) C4 (snd (Seed seeds (Resume k2)))"
    using crawl_contract.sim_ready [OF ct k3] crawl_contract.seed_sim [OF ct] crawl_contract.sim_refl [OF ct]
    unfolding Seed_def by (cases seeds) fastforce+
  then have k4: "?sim C k C4 (snd (Seed seeds (Resume k2)))" by (rule trans [OF k3])
  have F: "frontier k = ?F" using assms(4) by (simp add: ready_def)
  have "k' \<in> {k, ?k1, k2, Resume k2, snd (Seed seeds (Resume k2))}"
    using assms(6) rec seed F
    by (auto simp: production_start_def Let_def split: prod.splits option.splits sum.splits if_splits)
  with refl k1 k2 k3 k4 show ?thesis by blast
qed

end
