(* ===== verification/Scheduler.thy ===== *)
theory Scheduler
  imports World Bloom
begin

text \<open>
  \<^verbatim>\<open>internal/scheduler/scheduler.go\<close>: the reconcilers. Each is a function run by everyTick over the list of
  its ticks; a tick says whether the context is done when the loop checks it (besides stopFn), what the
  tick's own inputs are, and whether the wait for the next one ends with the context instead.
\<close>

type_synonym 'i tick = "bool \<times> 'i \<times> bool"

fun everyTick ::
  "('i \<Rightarrow> ('s, 'a) world_scheme \<Rightarrow> ('s, 'a) world_scheme option) \<Rightarrow> 'i tick list \<Rightarrow>
   ('s, 'a) world_scheme \<Rightarrow> ('s, 'a) world_scheme option" where
  "everyTick fn [] w = Some w"
| "everyTick fn ((err, i, stop) # ts) w =
     (if stopped w \<or> err then Some w
      else Option.bind (fn i w) (\<lambda>w'. if stop then Some w' else everyTick fn ts w'))"

subsection \<open>The four reconcilers of the frontier\<close>

text \<open>The loop of a listing-scheduler tick, which has no bound of its own.\<close>

partial_function (option) drain ::
  "'s Frontier \<Rightarrow> int \<Rightarrow> ('s, 'a) world_scheme \<Rightarrow> ('s, 'a) world_scheme option" where
  "drain F limit w =
     (let p = fcall (RunListingScheduler F) w
      in case fst p of
        Inl e \<Rightarrow> Some (Inc ReconcileErrors_update (snd p))
      | Inr n \<Rightarrow>
          (let w2 = Add ListingsAdmittedTotal_update n (snd p)
           in if n < limit then Some w2 else drain F limit w2))"

definition runListingScheduler ::
  "'s Frontier \<Rightarrow> int \<Rightarrow> unit tick list \<Rightarrow> ('s, 'a) world_scheme \<Rightarrow> ('s, 'a) world_scheme option" where
  "runListingScheduler F limit = everyTick (\<lambda>_. drain F limit)"

definition counted_tick ::
  "(time \<Rightarrow> 's \<Rightarrow> (gerr + int) \<times> 's) \<Rightarrow> ((int \<Rightarrow> int) \<Rightarrow> Metrics \<Rightarrow> Metrics) \<Rightarrow>
   ('s, 'a) world_scheme \<Rightarrow> ('s, 'a) world_scheme" where
  "counted_tick op upd w =
     (case fcall op w of
        (Inl e, w1) \<Rightarrow> Inc ReconcileErrors_update w1
      | (Inr n, w1) \<Rightarrow> Add upd n w1)"

definition runPromoter :: "'s Frontier \<Rightarrow> unit tick list \<Rightarrow> ('s, 'a) world_scheme \<Rightarrow> ('s, 'a) world_scheme option" where
  "runPromoter F = everyTick (\<lambda>_ w. Some (counted_tick (Promote F) PromotedTotal_update w))"

definition runReaper :: "'s Frontier \<Rightarrow> unit tick list \<Rightarrow> ('s, 'a) world_scheme \<Rightarrow> ('s, 'a) world_scheme option" where
  "runReaper F = everyTick (\<lambda>_ w. Some (counted_tick (Reap F) ReapedTotal_update w))"

definition runSweeper :: "'s Frontier \<Rightarrow> unit tick list \<Rightarrow> ('s, 'a) world_scheme \<Rightarrow> ('s, 'a) world_scheme option" where
  "runSweeper F = everyTick (\<lambda>_ w. Some (counted_tick (\<lambda>_. Sweep F) SweptTotal_update w))"

subsection \<open>Snapshots and gauges\<close>

text \<open>The snapshotter waits for its ticker first: a list of ticks with the error of BGSAVE, up to the end of the context.\<close>

fun runSnapshotter :: "rerr option list \<Rightarrow> ('s, 'a) world_scheme \<Rightarrow> ('s, 'a) world_scheme" where
  "runSnapshotter [] w = w"
| "runSnapshotter (None # ts) w = runSnapshotter ts w"
| "runSnapshotter (Some e # ts) w = runSnapshotter ts (Inc ReconcileErrors_update w)"

definition heartbeat :: "'s Frontier \<Rightarrow> ('s, 'a) world_scheme \<Rightarrow> ('s, 'a) world_scheme" where
  "heartbeat F w =
     (case fcall (\<lambda>_. Stats F) w of
        (Inl e, w1) \<Rightarrow> Inc ReconcileErrors_update w1
      | (Inr st, w1) \<Rightarrow>
          let w2 = meter (\<lambda>m. m\<lparr>FrontierReady := stReady st, FrontierProcessing := stProcessing st,
                     FrontierDelayed := stDelayed st, ListingsScheduled := stListingsScheduled st,
                     ListingsPending := stListingsPending st, FrontierDead := stDead st,
                     FrontierStrikes := stStrikes st\<rparr>) w1
          in case fcall (\<lambda>_. Idle F) w2 of
               (Inl e, w3) \<Rightarrow> w3
             | (Inr idle, w3) \<Rightarrow> meter (\<lambda>m. m\<lparr>FrontierIdle := (if idle then 1 else 0)\<rparr>) w3)"

definition runHeartbeat :: "'s Frontier \<Rightarrow> unit tick list \<Rightarrow> ('s, 'a) world_scheme \<Rightarrow> ('s, 'a) world_scheme option" where
  "runHeartbeat F = everyTick (\<lambda>_ w. Some (heartbeat F w))"

subsection \<open>The Bloom monitor\<close>

text \<open>
  The monitor's variable \<open>warned\<close> and the thresholds it has logged. Ratios and thresholds are rationals
  here, float64 in the code. A tick's input is what its two reads of BF.INFO give.
\<close>

definition bloomFillAlerts :: "rat list" where
  "bloomFillAlerts = [80/100, 90/100, 95/100]"

record 's monitor = "'s world" +
  warned :: nat
  warnings :: "rat list"

function warn_loop :: "rat \<Rightarrow> nat \<Rightarrow> rat list \<Rightarrow> nat \<times> rat list" where
  "warn_loop ratio k out =
     (if k < length bloomFillAlerts \<and> ratio \<ge> bloomFillAlerts ! k
      then warn_loop ratio (k + 1) (out @ [bloomFillAlerts ! k]) else (k, out))"
  by pat_completeness auto
termination by (relation "measure (\<lambda>(ratio, k, out). length bloomFillAlerts - k)") auto

declare warn_loop.simps [simp del]

definition bloomMonitor :: "('e + bloomStats) \<times> ('e + bloomStats) \<Rightarrow> 's monitor \<Rightarrow> 's monitor" where
  "bloomMonitor infos w =
     (case BloomVerify (fst infos) of
        Some err \<Rightarrow> stopFn w
      | None \<Rightarrow>
          (case BloomFillRatio_of (snd infos) of
             Inl e \<Rightarrow> Inc ReconcileErrors_update w
           | Inr ratio \<Rightarrow>
               let w1 = meter (\<lambda>m. m\<lparr>BloomFillRatio := ratio\<rparr>) w;
                   (k, out) = warn_loop ratio (warned w1) (warnings w1)
               in w1\<lparr>warned := k, warnings := out\<rparr>))"

definition runBloomMonitor ::
  "(('e + bloomStats) \<times> ('e + bloomStats)) tick list \<Rightarrow> 's world \<Rightarrow> 's monitor option" where
  "runBloomMonitor ts w =
     everyTick (\<lambda>i m. Some (bloomMonitor i m)) ts (world.extend w \<lparr>warned = 0, warnings = []\<rparr>)"

end
