(* ===== verification/Scheduler_Runs.thy ===== *)
theory Scheduler_Runs
  imports Scheduler Worker_Runs Frontier_Reconcile
begin

text \<open>
  The reconcilers' loops: the drain of due listings ends, each fill threshold of the filter is warned
  about once, and what the reconcilers do is a run of the crawl.
\<close>

subsection \<open>Fill warnings\<close>

definition reached :: "rat set \<Rightarrow> rat list" where
  "reached S = filter (\<lambda>a. \<exists>r \<in> S. a \<le> r) bloomFillAlerts"

lemma filter_down:
  fixes xs :: "rat list"
  assumes "\<And>a b. a \<le> b \<Longrightarrow> P b \<Longrightarrow> P a"
  shows "sorted xs \<Longrightarrow> filter P xs = takeWhile P xs"
proof (induction xs)
  case (Cons x xs)
  show ?case
  proof (cases "P x")
    case False
    then have "\<forall>y \<in> set xs. \<not> P y" using Cons.prems assms by fastforce
    with False show ?thesis by (simp add: filter_False)
  qed (use Cons in simp)
qed simp

lemma takeWhile_extend:
  fixes xs :: "rat list"
  assumes "\<And>a b. a \<le> b \<Longrightarrow> P b \<Longrightarrow> P a"
  shows "sorted xs \<Longrightarrow>
    takeWhile (\<lambda>a. P a \<or> a \<le> r) xs = takeWhile P xs @ takeWhile (\<lambda>a. a \<le> r) (drop (length (takeWhile P xs)) xs)"
proof (induction xs)
  case (Cons x xs)
  show ?case
  proof (cases "P x")
    case True
    with Cons show ?thesis by simp
  next
    case False
    then have "\<forall>y \<in> set (x # xs). \<not> P y" using Cons.prems assms by fastforce
    then have "takeWhile (\<lambda>a. P a \<or> a \<le> r) (x # xs) = takeWhile (\<lambda>a. a \<le> r) (x # xs)"
      by (intro takeWhile_cong) auto
    with False show ?thesis by simp
  qed
qed simp

lemma sorted_alerts: "sorted bloomFillAlerts"
  by (simp add: bloomFillAlerts_def)

lemma reached_takeWhile: "reached S = takeWhile (\<lambda>a. \<exists>r \<in> S. a \<le> r) bloomFillAlerts"
  unfolding reached_def
  by (rule filter_down [of "\<lambda>a. \<exists>r \<in> S. a \<le> r", OF _ sorted_alerts]) (meson order_trans)

lemma warn_loop_run: "warn_loop r k out =
  (k + length (takeWhile (\<lambda>a. a \<le> r) (drop k bloomFillAlerts)), out @ takeWhile (\<lambda>a. a \<le> r) (drop k bloomFillAlerts))"
proof (induction r k out rule: warn_loop.induct)
  case (1 r k out)
  show ?case
  proof (cases "k < length bloomFillAlerts")
    case True
    then have "drop k bloomFillAlerts = bloomFillAlerts ! k # drop (Suc k) bloomFillAlerts"
      by (simp add: Cons_nth_drop_Suc)
    with 1 True show ?thesis by (subst warn_loop.simps) auto
  next
    case False
    then show ?thesis by (subst warn_loop.simps) simp
  qed
qed

lemma warn_loop_reached:
  "warn_loop r (length (reached S)) (reached S) = (length (reached (insert r S)), reached (insert r S))"
proof -
  have "reached (insert r S) = takeWhile (\<lambda>a. (\<exists>r \<in> S. a \<le> r) \<or> a \<le> r) bloomFillAlerts"
    unfolding reached_takeWhile by (intro takeWhile_cong) auto
  also have "\<dots> = reached S @ takeWhile (\<lambda>a. a \<le> r) (drop (length (reached S)) bloomFillAlerts)"
    unfolding reached_takeWhile by (rule takeWhile_extend [OF _ sorted_alerts]) (meson order_trans)
  finally show ?thesis by (simp add: warn_loop_run)
qed

text \<open>The ratios that the second reads of a list of ticks give.\<close>

definition ratios :: "(bloomStats \<times> ('e + bloomStats)) list \<Rightarrow> rat set" where
  "ratios is = {q. \<exists>p \<in> set is. BloomFillRatio_of (snd p) = Inr q}"

abbreviation monitor_ticks :: "(bloomStats \<times> ('e + bloomStats)) list \<Rightarrow> (('e + bloomStats) \<times> ('e + bloomStats)) tick list" where
  "monitor_ticks is \<equiv> map (\<lambda>p. (False, (Inr (fst p), snd p), False)) is"

lemma ratios_Cons: "ratios (p # is) = (case BloomFillRatio_of (snd p) of Inl _ \<Rightarrow> {} | Inr q \<Rightarrow> {q}) \<union> ratios is"
  by (auto simp: ratios_def split: sum.splits)

lemma monitor_run:
  fixes "is" :: "(bloomStats \<times> ('e + bloomStats)) list"
  assumes "\<forall>p \<in> set is. BloomVerify (Inr (fst p) :: 'e + bloomStats) = None"
  shows "\<not> stopped m \<Longrightarrow> warnings m = reached S \<Longrightarrow> warned m = length (reached S) \<Longrightarrow>
    \<exists>m'. \<not> stopped m' \<and> warnings m' = reached (S \<union> ratios is) \<and> warned m' = length (warnings m') \<and>
      everyTick (\<lambda>i m. Some (bloomMonitor i m)) (monitor_ticks is @ ts) m = everyTick (\<lambda>i m. Some (bloomMonitor i m)) ts m'"
  using assms
proof (induction "is" arbitrary: m S)
  case Nil
  then show ?case by (auto simp: ratios_def)
next
  case (Cons p "is")
  let ?m = "bloomMonitor (Inr (fst p), snd p) m"
  have "\<exists>S'. S' \<union> ratios is = S \<union> ratios (p # is) \<and> \<not> stopped ?m \<and> warnings ?m = reached S' \<and> warned ?m = length (reached S')"
  proof (cases "BloomFillRatio_of (snd p)")
    case (Inl e)
    with Cons.prems show ?thesis
      by (intro exI [of _ S]) (simp add: bloomMonitor_def ratios_Cons meter_def)
  next
    case (Inr q)
    with Cons.prems show ?thesis
      by (intro exI [of _ "insert q S"]) (simp add: bloomMonitor_def ratios_Cons meter_def warn_loop_reached)
  qed
  then obtain S' where S': "S' \<union> ratios is = S \<union> ratios (p # is)"
    and m: "\<not> stopped ?m" "warnings ?m = reached S'" "warned ?m = length (reached S')" by blast
  from Cons.IH [OF m] Cons.prems S' show ?case by auto
qed

text \<open>
  C21: the Bloom monitor. As long as the filter's shape verifies, the thresholds logged are exactly those
  that some fill ratio read so far has reached, each once and in ascending order, and nothing stops the
  crawl; the first tick on which verification fails stops it and logs no further threshold.
\<close>

theorem bloom_warns_once:
  fixes "is" :: "(bloomStats \<times> ('e + bloomStats)) list"
  assumes "\<forall>p \<in> set is. BloomVerify (Inr (fst p) :: 'e + bloomStats) = None" and "\<not> stopped w"
  shows "(\<exists>m. runBloomMonitor (monitor_ticks is) w = Some m \<and> \<not> stopped m \<and>
      warnings m = filter (\<lambda>a. \<exists>q \<in> ratios is. a \<le> q) bloomFillAlerts) \<and>
    (\<forall>bad x s ts. BloomVerify bad \<noteq> None \<longrightarrow>
      (\<exists>m. runBloomMonitor (monitor_ticks is @ (False, (bad, x), s) # ts) w = Some m \<and> stopped m \<and>
        warnings m = filter (\<lambda>a. \<exists>q \<in> ratios is. a \<le> q) bloomFillAlerts))"
proof -
  let ?m = "world.extend w \<lparr>warned = 0, warnings = []\<rparr>"
  have start: "\<not> stopped ?m" "warnings ?m = reached {}" "warned ?m = length (reached {})"
    using assms(2) by (simp_all add: world.defs reached_def)
  have "\<exists>m. runBloomMonitor (monitor_ticks is @ (False, (bad, x), s) # ts) w = Some m \<and> stopped m \<and>
      warnings m = reached (ratios is)" if bad: "BloomVerify bad \<noteq> None" for bad x s ts
  proof -
    obtain m' where m': "\<not> stopped m'" "warnings m' = reached (ratios is)"
      "runBloomMonitor (monitor_ticks is @ (False, (bad, x), s) # ts) w =
         everyTick (\<lambda>i m. Some (bloomMonitor i m)) ((False, (bad, x), s) # ts) m'"
      using monitor_run [OF assms(1) start, of "(False, (bad, x), s) # ts"] by (auto simp: runBloomMonitor_def)
    have b: "bloomMonitor (bad, x) m' = stopFn m'"
      using bad by (auto simp: bloomMonitor_def split: option.splits)
    have "everyTick (\<lambda>i m. Some (bloomMonitor i m)) ts (stopFn m') = Some (stopFn m')"
      by (cases ts) auto
    with m' b show ?thesis by (simp add: stopFn_def)
  qed
  moreover have "\<exists>m. runBloomMonitor (monitor_ticks is) w = Some m \<and> \<not> stopped m \<and> warnings m = reached (ratios is)"
    using monitor_run [OF assms(1) start, of "[]"] by (auto simp: runBloomMonitor_def)
  ultimately show ?thesis by (simp add: reached_def)
qed

definition sample_info :: "int \<Rightarrow> bloomStats" where
  "sample_info n = \<lparr>capacity = 1000000000, bsize = 3000000000, nfilters = 1, itemsInserted = n\<rparr>"

definition sample_world :: "'s \<Rightarrow> 's world" where
  "sample_world s = \<lparr>fstate = s, metrics = zero_metrics, stopped = False, clock = sconst 0\<rparr>"

theorem bloom_warns_once_witness:
  "\<exists>m. runBloomMonitor (monitor_ticks [(sample_info 1, Inr (sample_info 910000000) :: rerr + bloomStats),
       (sample_info 1, Inr (sample_info 920000000))]) (sample_world ()) = Some m \<and> warnings m = [80/100, 90/100]"
proof -
  let ?is = "[(sample_info 1, Inr (sample_info 910000000) :: rerr + bloomStats), (sample_info 1, Inr (sample_info 920000000))]"
  have "impliedFPR (sample_info 1) \<le> 2 / 100000"
    using fpr_24 by (simp add: impliedFPR_def sample_info_def wrap64_id)
  moreover have "capacity (sample_info 1) = bloomCapacity" "nfilters (sample_info 1) = 1"
    by (simp_all add: sample_info_def bloomCapacity_def)
  ultimately have "\<forall>p \<in> set ?is. BloomVerify (Inr (fst p) :: rerr + bloomStats) = None"
    by (simp add: BloomVerify_def bloomErrorRate_def)
  moreover have "ratios ?is = {91/100, 92/100}"
    by (auto simp: ratios_def BloomFillRatio_of_def sample_info_def Fract_of_int_quotient)
  ultimately show ?thesis
    using conjunct1 [OF bloom_warns_once [of ?is "sample_world ()"]]
    by (auto simp: sample_world_def bloomFillAlerts_def)
qed

subsection \<open>The drain\<close>

text \<open>The listings with a due time of their own: those a page can admit.\<close>

definition schedulable :: "db \<Rightarrow> string set" where
  "schedulable s = {u. \<exists>t. zscore (dzsets s keyListingNext) u = Some t \<and> t \<noteq> PendingScore}"

lemma finite_schedulable: "finite (schedulable s)"
proof (rule finite_subset)
  show "schedulable s \<subseteq> zmembers (dzsets s keyListingNext)"
    by (auto simp: schedulable_def) (metis option.distinct(1) zscore_None_iff)
qed (simp add: zmembers_def)

lemma schedule_det:
  assumes "frontier_inv vid A s"
  shows "\<exists>t. run_det (luaListingScheduler keyListingNext keyReady keyJobSeq keyDead now mx PendingScore) s =
      Some (RInt (int (length (filter (\<lambda>u. \<not> blocked (dhashes s keyDead) now u) (zrange now mx (dzsets s keyListingNext))))), t) \<and>
    after_schedule (zrange now mx (dzsets s keyListingNext)) now s t"
proof -
  note inv = inv_facts [OF assms]
  have step: "run_det (luaListingScheduler keyListingNext keyReady keyJobSeq keyDead now mx PendingScore) s =
      run_det (scheduler_loop keyListingNext keyReady keyJobSeq keyDead now PendingScore 0
        (zrange now mx (dzsets s keyListingNext))) s"
    by (simp add: luaListingScheduler_def call_defs)
  from scheduler_loop_run [OF distinct_zrange [OF inv(6)] inv(8), of now 0 now mx] show ?thesis
    unfolding step by simp
qed

lemma scheduler_reply:
  assumes "redis_server ev" "frontier_inv vid A s" "time_Unix now < PendingScore"
    and "RunListingScheduler (NewFrontier ev c k) now s = (Inr n, s')"
  shows "0 \<le> n" and "schedulable s' \<subseteq> schedulable s" and "card (schedulable s') + nat n \<le> card (schedulable s)"
proof -
  let ?lim = "SchedulerBatchLimit c" and ?sc = "luaListingScheduler keyListingNext keyReady keyJobSeq keyDead"
  note inv = inv_facts [OF assms(2)]
  define due where "due = zrange (time_Unix now) ?lim (dzsets s keyListingNext)"
  define admitted where "admitted = filter (\<lambda>u. \<not> blocked (dhashes s keyDead) (time_Unix now) u) due"
  have "distinct due" unfolding due_def by (rule distinct_zrange [OF inv(6)])
  obtain t where "run_det (?sc (time_Unix now) ?lim PendingScore) s = Some (RInt (int (length admitted)), t)"
    and after: "after_schedule due (time_Unix now) s t"
    using schedule_det [OF assms(2)] unfolding admitted_def due_def by blast
  moreover obtain q where "ev (?sc (time_Unix now) ?lim PendingScore) s = (Inr q, s')" "cmd_Int64 (Inr q) = Inr n"
    using assms(4) by (auto simp: NewFrontier_def fr_RunListingScheduler_def Let_def
        split: prod.splits elim!: cmd_Int64_value)
  ultimately have "q = RInt (int (length admitted)) \<and> s' = t"
    using redis_server.eval_done [OF assms(1)] run_det_completes by blast
  with \<open>cmd_Int64 (Inr q) = Inr n\<close> have n: "n = int (length admitted)" and s': "s' = t" by simp_all
  have due_in: "set due \<subseteq> schedulable s"
    using zrange_due [OF inv(6)] assms(3) unfolding due_def schedulable_def by fastforce
  have pend: "u \<notin> schedulable t" if "u \<in> set admitted" for u
  proof -
    have "next_due (dhashes s keyDead) (time_Unix now) u = Some PendingScore"
      using that by (auto simp: admitted_def blocked_def next_due_def split: bind_splits option.splits)
    with that after show ?thesis
      by (simp add: after_schedule_def Let_def schedulable_def admitted_def)
  qed
  show "0 \<le> n" by (simp add: n)
  show sub: "schedulable s' \<subseteq> schedulable s"
    using due_in after unfolding s' by (auto simp: after_schedule_def Let_def schedulable_def split: if_splits)
  have "card (schedulable s') + card (set admitted) \<le> card (schedulable s)"
  proof -
    have "schedulable s' \<inter> set admitted = {}" using pend s' by blast
    moreover have "set admitted \<subseteq> schedulable s" using due_in by (auto simp: admitted_def)
    ultimately show ?thesis
      using sub card_mono [OF finite_schedulable, of "schedulable s' \<union> set admitted" s]
      by (simp add: card_Un_disjoint finite_schedulable)
  qed
  then show "card (schedulable s') + nat n \<le> card (schedulable s)"
    using distinct_card [of admitted] \<open>distinct due\<close> by (simp add: n admitted_def del: set_filter)
qed

context redis_frontier
begin

lemma scheduler_inv: "frontier_inv (\<lambda>u. cl u = ClassVideo) A s \<Longrightarrow>
  frontier_inv (\<lambda>u. cl u = ClassVideo) A (snd (RunListingScheduler (NewFrontier eval c (Some cl)) now s))"
  by (rule RunListingScheduler_inv)

end

lemma scheduler_keeps:
  assumes "redis_server ev" "frontier_inv (\<lambda>u. cl u = ClassVideo) A s"
    and "RunListingScheduler (NewFrontier ev c (Some cl)) now s = (r, s')"
  shows "frontier_inv (\<lambda>u. cl u = ClassVideo) A s'"
  using redis_frontier.scheduler_inv [OF redis_frontier.intro [OF assms(1)] assms(2), of c now] assms(3) by simp

lemma drain_ends:
  assumes "redis_server ev" "1 \<le> limit"
  shows "frontier_inv (\<lambda>u. cl u = ClassVideo) A (fstate w) \<Longrightarrow> \<forall>t \<in> sset (clock w). time_Unix t < PendingScore \<Longrightarrow>
    \<exists>w'. drain (NewFrontier ev c (Some cl)) limit w = Some w'"
proof (induction "card (schedulable (fstate w))" arbitrary: w rule: less_induct)
  case less
  let ?F = "NewFrontier ev c (Some cl)"
  obtain r w1 where call: "fcall (RunListingScheduler ?F) w = (r, w1)" by fastforce
  note run = fcall_result [OF call]
  show ?case
  proof (cases r)
    case (Inl e)
    with call show ?thesis by (simp add: drain.simps)
  next
    case (Inr n)
    let ?w2 = "Add ListingsAdmittedTotal_update n w1"
    show ?thesis
    proof (cases "n < limit")
      case True
      with call Inr show ?thesis by (simp add: drain.simps)
    next
      case False
      have "time_Unix (shd (clock w)) < PendingScore" using less.prems(2) shd_sset by blast
      with scheduler_reply(3) [OF assms(1) less.prems(1)] run Inr False assms(2)
      have "card (schedulable (fstate ?w2)) < card (schedulable (fstate w))" by fastforce
      moreover have "frontier_inv (\<lambda>u. cl u = ClassVideo) A (fstate ?w2)"
        using scheduler_keeps [OF assms(1) less.prems(1) run] by simp
      moreover have "\<forall>t \<in> sset (clock ?w2). time_Unix t < PendingScore"
        using less.prems(2) fcall_frame [OF call] by (auto dest: sset_stl)
      ultimately obtain w' where "drain ?F limit ?w2 = Some w'" using less.hyps by blast
      with call Inr False show ?thesis by (subst drain.simps) (simp add: Let_def)
    qed
  qed
qed

text \<open>With a limit of 0 or less no page ever comes back short.\<close>

lemma scheduler_answers:
  assumes "redis_reliable ev" "frontier_inv vid A s"
  shows "\<exists>n s'. RunListingScheduler (NewFrontier ev c k) now s = (Inr n, s')"
proof -
  obtain r t where "run_det (luaListingScheduler keyListingNext keyReady keyJobSeq keyDead (time_Unix now)
      (SchedulerBatchLimit c) PendingScore) s = Some (RInt r, t)"
    using schedule_det [OF assms(2), of "time_Unix now" "SchedulerBatchLimit c"] by blast
  from redis_reliable.eval_run_det [OF assms(1) this] show ?thesis
    by (simp add: NewFrontier_def fr_RunListingScheduler_def Let_def)
qed

lemma drain_zero_limit:
  fixes w :: "(db, 'a) world_scheme"
  assumes "redis_reliable ev" and "frontier_inv (\<lambda>u. cl u = ClassVideo) A (fstate w)"
    and "limit \<le> 0" and "\<forall>t \<in> sset (clock w). time_Unix t < PendingScore"
  shows "drain (NewFrontier ev c (Some cl)) limit w = None"
proof -
  let ?F = "NewFrontier ev c (Some cl)"
  let ?good = "\<lambda>w. frontier_inv (\<lambda>u. cl u = ClassVideo) A (fstate w) \<and> (\<forall>t \<in> sset (clock w). time_Unix t < PendingScore)"
  have server: "redis_server ev" using assms(1) by (rule redis_reliable.axioms)
  have "F = ?F \<longrightarrow> limit \<le> 0 \<longrightarrow> \<not> ?good w" if ends: "drain F limit w = Some w'"
    for F limit and w w' :: "(db, 'a) world_scheme"
  proof (rule drain.raw_induct [where P = "\<lambda>F limit w w'. F = ?F \<longrightarrow> limit \<le> 0 \<longrightarrow> \<not> ?good w", OF _ ends], goal_cases)
    case (1 drain' F limit w w')
    show ?case
    proof (intro impI notI)
      assume F: "F = ?F" and lim: "limit \<le> 0" and good: "?good w"
      obtain r w1 where call: "fcall (RunListingScheduler ?F) w = (r, w1)" by fastforce
      note run = fcall_result [OF call]
      obtain n where n: "r = Inr n"
        using scheduler_answers [OF assms(1) conjunct1 [OF good], of c "Some cl" "shd (clock w)"] run by auto
      have "time_Unix (shd (clock w)) < PendingScore" using good shd_sset by blast
      with scheduler_reply(1) [OF server conjunct1 [OF good]] run n have "0 \<le> n" by blast
      with 1(2) F call n lim have "drain' ?F limit (Add ListingsAdmittedTotal_update n w1) = Some w'"
        by (simp add: Let_def split: if_splits)
      moreover have "?good (Add ListingsAdmittedTotal_update n w1)"
        using scheduler_keeps [OF server conjunct1 [OF good] run] good fcall_frame [OF call] by (auto dest: sset_stl)
      ultimately show False using 1(1) lim by blast
    qed
  qed
  with assms show ?thesis by (cases "drain ?F limit w") blast+
qed

text \<open>
  C17: when a tick of the listing scheduler ends. With a page limit of at least 1 and a clock before
  PENDING, the drain returns whatever the server does: each full page marks that many listings PENDING,
  and an error ends it. With a limit of 0 or less, which the configuration accepts, it never returns on a
  server that carries the scripts out.
\<close>

theorem drain_terminates:
  fixes w :: "(db, 'a) world_scheme"
  assumes "redis_server ev" and "runs ev c cl ({}, empty_db) (A, fstate w)"
    and "\<forall>t \<in> sset (clock w). time_Unix t < PendingScore"
  shows "(1 \<le> limit \<longrightarrow> (\<exists>w'. drain (NewFrontier ev c (Some cl)) limit w = Some w')) \<and>
    (limit \<le> 0 \<and> redis_reliable ev \<longrightarrow> drain (NewFrontier ev c (Some cl)) limit w = None)"
  using drain_ends [OF assms(1) _ runs_inv [OF assms(1,2)] assms(3)]
    drain_zero_limit [OF _ runs_inv [OF assms(1,2)] _ assms(3)] by blast

theorem drain_terminates_witness:
  "(\<exists>w'. drain (NewFrontier ref_eval DefaultFrontierConfig (Some (\<lambda>_. ClassListing))) 100 (sample_world empty_db) = Some w') \<and>
   drain (NewFrontier ref_eval DefaultFrontierConfig (Some (\<lambda>_. ClassListing))) 0 (sample_world empty_db) = None"
proof -
  have server: "redis_server ref_eval" "redis_reliable ref_eval" by unfold_locales
  have run: "runs ref_eval DefaultFrontierConfig (\<lambda>_. ClassListing) ({}, empty_db) ({}, fstate (sample_world empty_db))"
    by (simp add: sample_world_def steps_refl)
  have "\<forall>t \<in> sset (clock (sample_world empty_db)). time_Unix t < PendingScore"
    by (simp add: sample_world_def PendingScore_def time_Unix_def time_Second_def)
  from drain_terminates [OF server(1) run this, of 100] drain_terminates [OF server(1) run this, of 0] server(2)
  show ?thesis by simp
qed

subsection \<open>Reconcilers as runs of the crawl\<close>

context crawl_contract
begin

lemma counted_sim:
  assumes "ready F cl clk D c"
    and "\<And>r s'. op (shd (clock c)) (fstate c) = (r, s') \<Longrightarrow>
      frontier_step F cl clk (C - dom (docs (mstate c)), fstate c) (C - dom (docs (mstate c)), s')"
  shows "sim C c C (counted_tick op upd c)"
proof -
  obtain r c1 where call: "fcall op c = (r, c1)" by fastforce
  from sim_call_same [OF assms(1) call assms(2) [OF fcall_result [OF call]]] call
  show ?thesis by (auto simp: counted_tick_def split: sum.splits)
qed

lemma drain_sim:
  assumes "drain F k c = Some c'" and "ready F cl clk D c"
  shows "sim C c C c'"
proof -
  have "G = F \<longrightarrow> ready F cl clk D c \<longrightarrow> sim C c C c'" if ends: "drain G k c = Some c'"
    for G k and c c' :: "('s, 'm, 'e) Crawler"
  proof (rule drain.raw_induct [where P = "\<lambda>G k c c'. G = F \<longrightarrow> ready F cl clk D c \<longrightarrow> sim C c C c'", OF _ ends], goal_cases)
    case (1 drain' G k c c')
    show ?case
    proof (intro impI)
      assume G: "G = F" and ready: "ready F cl clk D c"
      obtain r c1 where call: "fcall (RunListingScheduler F) c = (r, c1)" by fastforce
      have c1: "sim C c C c1"
        by (rule sim_call_same [OF ready call frontier_step.schedule [OF fcall_result [OF call]]])
      show "sim C c C c'"
      proof (cases r)
        case (Inl e)
        with 1(2) G call c1 show ?thesis by auto
      next
        case (Inr n)
        let ?c2 = "Add ListingsAdmittedTotal_update n c1"
        have c2: "sim C c C ?c2" using c1 by simp
        have "(if n < k then Some ?c2 else drain' F k ?c2) = Some c'"
          using 1(2) unfolding G call Inr Let_def fst_conv snd_conv sum.case .
        then consider (last) "c' = ?c2" | (more) "drain' F k ?c2 = Some c'"
          by (cases "n < k") simp_all
        then show ?thesis
        proof cases
          case last
          with c2 show ?thesis by simp
        next
          case more
          then have "sim C ?c2 C c'" using 1(1) conjunct1 [OF sim_ready [OF c2]] by blast
          with c2 show ?thesis by (rule sim_trans)
        qed
      qed
    qed
  qed
  with assms show ?thesis by blast
qed

lemma everyTick_sim:
  assumes "\<And>i c c'. ready F cl clk D c \<Longrightarrow> fn i c = Some c' \<Longrightarrow> sim C c C c'"
  shows "ready F cl clk D c \<Longrightarrow> everyTick fn ts c = Some c' \<Longrightarrow> sim C c C c'"
proof (induction ts arbitrary: c)
  case (Cons t ts)
  obtain err i stop where t: "t = (err, i, stop)" by (metis prod.exhaust)
  show ?case
  proof (cases "stopped c \<or> err")
    case True
    with Cons.prems t show ?thesis by (auto intro: sim_refl)
  next
    case False
    with Cons.prems(2) t obtain c1 where c1: "fn i c = Some c1"
      and rest: "(if stop then Some c1 else everyTick fn ts c1) = Some c'"
      by (auto split: bind_splits)
    have s1: "sim C c C c1" by (rule assms [OF Cons.prems(1) c1])
    with rest Cons.IH [of c1] sim_ready [OF s1] show ?thesis by (auto split: if_splits intro: sim_trans)
  qed
qed (auto intro: sim_refl)

lemma reconciler_sim:
  assumes "ready F cl clk D c"
  shows "runListingScheduler F k ts c = Some c' \<Longrightarrow> sim C c C c'"
    and "runPromoter F ts c = Some c' \<Longrightarrow> sim C c C c'"
    and "runReaper F ts c = Some c' \<Longrightarrow> sim C c C c'"
    and "runSweeper F ts c = Some c' \<Longrightarrow> sim C c C c'"
proof -
  show "runListingScheduler F k ts c = Some c' \<Longrightarrow> sim C c C c'"
    unfolding runListingScheduler_def by (rule everyTick_sim [OF _ assms]) (auto intro: drain_sim)
  show "runPromoter F ts c = Some c' \<Longrightarrow> sim C c C c'"
    unfolding runPromoter_def
    by (rule everyTick_sim [OF _ assms]) (auto intro!: counted_sim frontier_step.promote)
  show "runReaper F ts c = Some c' \<Longrightarrow> sim C c C c'"
    unfolding runReaper_def
    by (rule everyTick_sim [OF _ assms]) (auto intro!: counted_sim frontier_step.reap)
  show "runSweeper F ts c = Some c' \<Longrightarrow> sim C c C c'"
    unfolding runSweeper_def
    by (rule everyTick_sim [OF _ assms]) (auto intro!: counted_sim frontier_step.sweep)
qed

end

end
