(* ===== verification/Crawler_Urls.thy ===== *)
theory Crawler_Urls
  imports Crawler
begin

text \<open>
  The canonical form of URLs, for the configuration that Load builds: what it is, that it is stable, and
  which spellings of a video page it identifies.
\<close>

definition base_url :: string where "base_url = ''https://www.vidlii.com''"
definition watch :: string where "watch = ''/watch?v=''"

lemma Load_urls [simp]: "BaseUrl (Load env) = base_url" "VideoPattern (Load env) = watch"
  by (simp_all add: Load_def Let_def base_url_def watch_def)

lemma base_watch_length [simp]: "length base_url = 22" "length watch = 9"
  by (simp_all add: base_url_def watch_def)

lemma base_watch_clean [simp]:
  "CHR ''#'' \<notin> set base_url" "CHR ''&'' \<notin> set base_url" "CHR ''#'' \<notin> set watch" "CHR ''&'' \<notin> set watch"
  "base_url \<noteq> []" "watch \<noteq> []" "last base_url \<noteq> CHR ''/''"
  by (simp_all add: base_url_def watch_def)

text \<open>No occurrence of the pattern begins inside the base URL.\<close>

lemma Index_base: "Index (base_url @ r) watch = map_option (\<lambda>i. i + 22) (Index r watch)"
  by (simp add: base_url_def watch_def HasPrefix_def option.map_comp comp_def numeral_eq_Suc)

lemma Index_here: "Index (watch @ r) watch = Some 0"
  by (simp add: watch_def HasPrefix_def)

lemma Contains_base: "Contains (base_url @ r) watch \<longleftrightarrow> Contains r watch"
  by (simp add: Contains_def Index_base)

text \<open>Cutting at the first byte \<open>x\<close>.\<close>

lemma cut_at: "(case Index s [x] of Some i \<Rightarrow> take i s | None \<Rightarrow> s) = takeWhile (\<lambda>c. c \<noteq> x) s"
proof (cases "x \<in> set s")
  case False
  then show ?thesis by (auto simp: Index_char intro!: takeWhile_eq_all_conv [THEN iffD2, symmetric])
qed (simp add: Index_char take_takeWhile)

lemma takeWhile_skip: "x \<notin> set xs \<Longrightarrow> takeWhile (\<lambda>c. c \<noteq> x) (xs @ ys) = xs @ takeWhile (\<lambda>c. c \<noteq> x) ys"
  by (rule takeWhile_append2) auto

lemma takeWhile_none: "x \<notin> set xs \<Longrightarrow> takeWhile (\<lambda>c. c \<noteq> x) xs = xs"
  by (simp add: takeWhile_eq_all_conv) metis

lemma canonicalize_base:
  "canonicalize (Load env) (base_url @ r) =
     (let r' = takeWhile (\<lambda>c. c \<noteq> CHR ''#'') r
      in case Index r' watch of
           Some i \<Rightarrow>
             (let vid = drop (i + 9) r'
              in if vid = '''' then '''' else base_url @ watch @ takeWhile (\<lambda>c. c \<noteq> CHR ''&'') vid)
         | None \<Rightarrow> base_url @ TrimRight r' {CHR ''/''})"
proof -
  have "takeWhile (\<lambda>c. c \<noteq> CHR ''#'') (base_url @ r) = base_url @ takeWhile (\<lambda>c. c \<noteq> CHR ''#'') r"
    by (simp add: takeWhile_skip)
  moreover have "TrimRight (base_url @ x) {CHR ''/''} = base_url @ TrimRight x {CHR ''/''}" for x
    by (simp add: TrimRight_def dropWhile_append base_url_def)
  ultimately show ?thesis
    by (cases "Index (takeWhile (\<lambda>c. c \<noteq> CHR ''#'') r) watch")
       (simp_all add: canonicalize_def cut_at Index_base Let_def add.commute)
qed

lemma canonicalize_other: "\<not> HasPrefix raw base_url \<Longrightarrow> canonicalize (Load env) raw = ''''"
proof -
  assume "\<not> HasPrefix raw base_url"
  then have "\<not> HasPrefix (takeWhile (\<lambda>c. c \<noteq> CHR ''#'') raw) base_url"
    unfolding HasPrefix_iff by (metis append.assoc takeWhile_dropWhile_id)
  then show ?thesis by (simp add: canonicalize_def cut_at Let_def)
qed

lemma TrimRight_prefix: "\<exists>t. s = TrimRight s A @ t"
  unfolding TrimRight_def by (metis rev_append rev_rev_ident takeWhile_dropWhile_id)

lemma TrimRight_idem [simp]: "TrimRight (TrimRight s A) A = TrimRight s A"
  by (simp add: TrimRight_def dropWhile_idem)

lemma TrimRight_last: "TrimRight s A \<noteq> [] \<Longrightarrow> last (TrimRight s A) \<notin> A"
  unfolding TrimRight_def last_rev by (metis hd_dropWhile rev.simps(1))

lemma not_Contains_prefix: "\<not> Contains (s @ t) p \<Longrightarrow> \<not> Contains s p"
  using Contains_append_right by blast


text \<open>
  C18: canonical URLs. What canonicalize keeps is either the page of a video, in the one form
  base + pattern + id without fragment and further parameters, or another page on the base URL without
  fragment and trailing slash. It is stable under canonicalize, but for the page of the empty id, which a
  second pass drops.
\<close>

theorem canonical_form:
  assumes "canonicalize (Load env) raw = u" and "u \<noteq> ''''"
  shows "(if Contains u watch
      then \<exists>vid. u = base_url @ watch @ vid \<and> CHR ''#'' \<notin> set vid \<and> CHR ''&'' \<notin> set vid
      else HasPrefix u base_url \<and> CHR ''#'' \<notin> set u \<and> last u \<noteq> CHR ''/'') \<and>
    canonicalize (Load env) u = (if u = base_url @ watch then '''' else u)"
proof -
  from assms obtain r where raw: "raw = base_url @ r"
    using canonicalize_other unfolding HasPrefix_iff by metis
  define r' where "r' = takeWhile (\<lambda>c. c \<noteq> CHR ''#'') r"
  have clean: "CHR ''#'' \<notin> set r'" unfolding r'_def using set_takeWhileD by fastforce
  show ?thesis
  proof (cases "Index r' watch")
    case (Some i)
    define vid where "vid = takeWhile (\<lambda>c. c \<noteq> CHR ''&'') (drop (i + 9) r')"
    have u: "u = base_url @ watch @ vid"
      using assms Some by (simp add: raw canonicalize_base Let_def vid_def flip: r'_def split: if_splits)
    have amp: "CHR ''&'' \<notin> set vid" unfolding vid_def using set_takeWhileD by fastforce
    moreover have hash: "CHR ''#'' \<notin> set vid"
      using clean unfolding vid_def by (metis in_set_dropD set_takeWhileD)
    moreover have "Contains u watch" unfolding u Contains_base by (simp add: Contains_def Index_here)
    ultimately have "canonicalize (Load env) u = (if u = base_url @ watch then '''' else u)"
      by (simp add: u canonicalize_base Index_here takeWhile_none Let_def)
    with \<open>Contains u watch\<close> u amp hash show ?thesis by simp
  next
    case None
    define p where "p = TrimRight r' {CHR ''/''}"
    obtain t where t: "r' = p @ t" using TrimRight_prefix [of r' "{CHR ''/''}"] p_def by blast
    have u: "u = base_url @ p"
      using assms None by (simp add: raw canonicalize_base Let_def p_def flip: r'_def)
    have "\<not> Contains p watch"
      using None t not_Contains_prefix by (metis Contains_def)
    moreover have "CHR ''#'' \<notin> set p" using clean t by simp
    moreover have "last (base_url @ p) \<noteq> CHR ''/''"
      using TrimRight_last [of r' "{CHR ''/''}"] by (simp add: last_append p_def)
    moreover have "TrimRight p {CHR ''/''} = p" by (simp add: p_def)
    moreover have "p \<noteq> watch"
      using \<open>\<not> Contains p watch\<close> Index_here [of "''''"] by (auto simp: Contains_def)
    moreover have "Index p watch = None" using \<open>\<not> Contains p watch\<close> by (simp add: Contains_def)
    ultimately have "canonicalize (Load env) u = u" "u \<noteq> base_url @ watch" "\<not> Contains u watch"
        "last u \<noteq> CHR ''/''" "CHR ''#'' \<notin> set u"
      by (simp_all add: u canonicalize_base Contains_base takeWhile_none)
    then show ?thesis by (simp add: u)
  qed
qed

theorem canonical_form_witness:
  "canonicalize (Load (\<lambda>_. '''')) ''https://www.vidlii.com/user/x'' = ''https://www.vidlii.com/user/x''"
proof -
  have "canonicalize (Load (\<lambda>_. '''')) ''https://www.vidlii.com/user/x//#top'' = ''https://www.vidlii.com/user/x''"
    by code_simp
  from canonical_form [OF this] show ?thesis by (simp add: base_url_def watch_def)
qed

text \<open>
  One video, one URL. Whatever path precedes the pattern and whatever parameters or fragment follow
  the id, the canonical form of a video's URL depends on the id only.
\<close>

theorem video_spellings:
  assumes "vid \<noteq> ''''" "CHR ''&'' \<notin> set vid" "CHR ''#'' \<notin> set vid"
    and "rest = '''' \<or> hd rest = CHR ''&'' \<or> hd rest = CHR ''#''"
    and "Index (path @ watch @ vid) watch = Some (length path)" "CHR ''#'' \<notin> set path"
  shows "canonicalize (Load env) (base_url @ path @ watch @ vid @ rest) = base_url @ watch @ vid"
proof -
  define tail where "tail = takeWhile (\<lambda>c. c \<noteq> CHR ''#'') rest"
  have hash: "takeWhile (\<lambda>c. c \<noteq> CHR ''#'') (path @ watch @ vid @ rest) = path @ watch @ vid @ tail"
    using assms(3,6) by (simp add: takeWhile_skip tail_def)
  have "Index (path @ watch @ vid @ tail) watch = Some (length path)"
    using assms(5) unfolding Index_first by (auto simp: HasPrefix_def)
  moreover have "takeWhile (\<lambda>c. c \<noteq> CHR ''&'') (vid @ tail) = vid"
    using assms(2,4) by (cases rest) (auto simp: takeWhile_skip takeWhile_none tail_def)
  ultimately show ?thesis using assms(1) by (simp add: canonicalize_base hash)
qed


theorem video_spellings_witness:
  "canonicalize (Load (\<lambda>_. '''')) ''https://www.vidlii.com/x/watch?v=a1&t=3#c'' = ''https://www.vidlii.com/watch?v=a1''"
  using video_spellings [of "''a1''" "''&t=3#c''" "''/x''" "\<lambda>_. ''''"]
  by (simp add: base_url_def watch_def HasPrefix_def)

text \<open>
  Two URLs the guards do not catch: a host that merely begins with the base URL, and an id that is empty
  once the parameters are cut off.
\<close>

lemma other_host_kept:
  "canonicalize (Load env) ''https://www.vidlii.com.example.org/x'' = ''https://www.vidlii.com.example.org/x''"
  using canonicalize_base [of env "''.example.org/x''"] by (simp add: base_url_def watch_def HasPrefix_def TrimRight_def Let_def)

lemma empty_id_kept:
  "canonicalize (Load env) ''https://www.vidlii.com/watch?v=&t=3'' = ''https://www.vidlii.com/watch?v='' \<and>
   canonicalize (Load env) ''https://www.vidlii.com/watch?v='' = ''''"
  using canonicalize_base [of env "''/watch?v=&t=3''"] canonicalize_base [of env "''/watch?v=''"]
  by (simp add: base_url_def watch_def HasPrefix_def Let_def)

text \<open>A seed is compared as it is written in the file: with a trailing slash its page is an ordinary listing.\<close>

lemma slash_seed_is_listing:
  "NewURLClassifier (Load env) [''https://www.vidlii.com/x/'']
     (canonicalize (Load env) ''https://www.vidlii.com/x/'') = ClassListing"
  using canonicalize_base [of env "''/x/''"]
  by (simp add: base_url_def watch_def HasPrefix_def TrimRight_def Let_def NewURLClassifier_def Contains_def)

end
