(* ===== verification/Crawl_Safety.thy ===== *)
theory Crawl_Safety
  imports Startup Scheduler_Runs Crawler_Urls
begin

text \<open>
  The properties of the crawler's parts together: no run of the crawl loses a video, and what the
  reconcilers and the startup do is such a run.
\<close>

abbreviation crawls ::
  "server \<Rightarrow> FrontierConfig \<Rightarrow> URLClassifier \<Rightarrow> ('e, 'm) driver \<Rightarrow> ('m \<Rightarrow> string \<Rightarrow> Video option) \<Rightarrow>
   string set \<times> db \<times> 'm \<Rightarrow> string set \<times> db \<times> 'm \<Rightarrow> bool" where
  "crawls ev c cl D docs \<equiv> crawl_steps (NewFrontier ev c (Some cl)) cl (time_ok c) (bloom_maintenance ev) D docs"

text \<open>A crawler as main builds it, with clock readings in the range the frontier is built for.\<close>

definition assembled ::
  "server \<Rightarrow> string list \<Rightarrow> ('e, 'm) driver \<Rightarrow> (db, 'm, 'e) Crawler \<Rightarrow> bool" where
  "assembled ev seeds D k \<longleftrightarrow>
     frontier k = NewFrontier ev (frontierConfig (conf k)) (Some (NewURLClassifier (conf k) seeds)) \<and>
     mongo k = D \<and> (\<forall>t \<in> sset (clock k). time_ok (frontierConfig (conf k)) t)"

lemma video_class: "NewURLClassifier cf seeds u = ClassVideo \<longleftrightarrow> Contains u (VideoPattern cf)"
  by (simp add: NewURLClassifier_def)

lemma quarantine_config: "quarantine_of cf = QuarantineListing (frontierConfig cf)"
  by (simp add: quarantine_of_def frontierConfig_def)

lemma until_ok_main: "time_ok (frontierConfig cf) t \<Longrightarrow> until_ok k (untilFor k (quarantine_of cf) t)"
  by (auto simp: until_ok_def untilFor_def unixOrZero_def time_ok_def quarantine_config zero_time_def time_Unix_def time_Second_def)

lemma assembled_ready: "assembled ev seeds D k \<Longrightarrow>
  ready (NewFrontier ev (frontierConfig (conf k)) (Some (NewURLClassifier (conf k) seeds)))
    (NewURLClassifier (conf k) seeds) (time_ok (frontierConfig (conf k))) D k"
  by (simp add: assembled_def ready_def video_class until_ok_main)

lemma main_crawler_assembled:
  "\<forall>t \<in> sset (clock w). time_ok (frontierConfig cf) t \<Longrightarrow>
   assembled ev (readSeedURLs seeds (BaseUrl cf)) D (main_crawler ev cf seeds D m w)"
  by (simp add: assembled_def main_crawler_def New_crawler_def Let_def)

subsection \<open>No video is lost\<close>

lemma crawls_inv:
  assumes "redis_server ev" "mongo_store D docs" "crawls ev c cl D docs ({}, empty_db, m0) (C, s, m)"
  shows "frontier_inv (\<lambda>u. cl u = ClassVideo) (C - dom (docs m)) s"
  using crawl_contract.crawl_steps_inv [OF redis_contract [OF assms(1,2)] assms(3)]
  by (simp add: crawl_contract.crawl_inv_def [OF redis_contract [OF assms(1,2)]])

text \<open>
  C3: no video is lost. However the calls of workers, reconcilers and startup interleave, from an empty
  database on, with scripts stopped midway, replies lost and replacements failing: a video once admitted
  is stored in the collection, or has a job in ready, processing or delayed, or is dead for good; and a
  listing marked PENDING has a job.
\<close>

theorem crawl_no_lost_video:
  assumes "redis_server ev" and "mongo_store D docs"
    and "crawls ev c cl D docs ({}, empty_db, m0) (C, s, m)"
  shows "(\<forall>u \<in> C. docs m u \<noteq> None \<or> has_job s u \<or> dead_forever (dhashes s keyDead) u) \<and>
    (\<forall>u. zscore (dzsets s keyListingNext) u = Some PendingScore \<longrightarrow> has_job s u)"
  using crawls_inv [OF assms] by (auto simp: frontier_inv_def covered_def owed_def has_job_def)

theorem crawl_no_lost_video_witness:
  "\<exists>s. crawls ref_eval DefaultFrontierConfig (\<lambda>_. ClassVideo) ref_driver map_of ({}, empty_db, []) ({''v''}, s, []) \<and>
     (has_job s ''v'' \<or> dead_forever (dhashes s keyDead) ''v'')"
proof -
  let ?F = "NewFrontier ref_eval DefaultFrontierConfig (Some (\<lambda>_. ClassVideo))"
  have "fst (AdmitVideo ?F 0 ''v'' empty_db) = Inr New" by code_simp
  then obtain s where s: "AdmitVideo ?F 0 ''v'' empty_db = (Inr New, s)" by (metis prod.collapse)
  have "frontier_step ?F (\<lambda>_. ClassVideo) (time_ok DefaultFrontierConfig) ({}, empty_db) (claim ''v'' (Inr New) {}, s)"
    by (rule frontier_step.admit_video [OF refl s])
  then have "crawls ref_eval DefaultFrontierConfig (\<lambda>_. ClassVideo) ref_driver map_of
      ({}, empty_db, []) ({} \<union> {''v''}, s, [])"
    by (intro r_into_rtranclp crawl_step.frontier_call) (simp_all add: claim_def)
  then have run: "crawls ref_eval DefaultFrontierConfig (\<lambda>_. ClassVideo) ref_driver map_of
      ({}, empty_db, []) ({''v''}, s, [])" by simp
  have "redis_server ref_eval" "mongo_store ref_driver map_of" by unfold_locales
  from crawl_no_lost_video [OF this run] run show ?thesis by auto
qed

subsection \<open>The parts are runs of the crawl\<close>

text \<open>
  Reconcilers refine the crawl. Ticks of the listing scheduler, the promoter, the reaper and the
  sweeper, as many as come and however they end, are runs of the crawl that admit no video.
\<close>

theorem reconcilers_refine:
  assumes "redis_server ev" and "mongo_store D docs" and "assembled ev seeds D k"
    and "runListingScheduler (frontier k) n ts k = Some k' \<or> runPromoter (frontier k) ts k = Some k' \<or>
      runReaper (frontier k) ts k = Some k' \<or> runSweeper (frontier k) ts k = Some k'"
  shows "crawls ev (frontierConfig (conf k)) (NewURLClassifier (conf k) seeds) D docs
    (C, fstate k, mstate k) (C, fstate k', mstate k')"
proof -
  note ct = redis_contract [OF assms(1,2), of "frontierConfig (conf k)" "NewURLClassifier (conf k) seeds"]
  have "frontier k = NewFrontier ev (frontierConfig (conf k)) (Some (NewURLClassifier (conf k) seeds))"
    using assms(3) by (simp add: assembled_def)
  with assms(4) crawl_contract.reconciler_sim [OF ct assembled_ready [OF assms(3)]]
  show ?thesis using crawl_contract.sim_def [OF ct] by metis
qed

text \<open>
  C22: startup refines the crawl. The production startup on an empty database, through whichever of its
  stages it gets, is a run of the crawl: rebuilding the filter, seeding and resuming keep all that a run
  keeps.
\<close>

theorem startup_refines:
  assumes "redis_server ev" and "mongo_store D docs"
    and "\<forall>t \<in> sset (clock w). time_ok (frontierConfig (Load env)) t"
    and "production_start ev reserve info seeds fresh (main_crawler ev (Load env) seeds D m w) = (res, k)"
  shows "\<exists>C. crawls ev (frontierConfig (Load env)) (NewURLClassifier (Load env) (readSeedURLs seeds base_url)) D docs
    ({}, fstate w, m) (C, fstate k, mstate k)"
proof -
  let ?cl = "NewURLClassifier (Load env) (readSeedURLs seeds base_url)" and ?k = "main_crawler ev (Load env) seeds D m w"
  note ct = redis_contract [OF assms(1,2), of "frontierConfig (Load env)" ?cl]
  have k: "conf ?k = Load env" "fstate ?k = fstate w" "mstate ?k = m"
    by (simp_all add: main_crawler_def New_crawler_def Let_def)
  have "\<not> Contains base_url watch" using Contains_base [of "''''"] by (simp add: Contains_def watch_def)
  then have "?cl (BaseUrl (conf ?k)) \<noteq> ClassVideo" by (simp add: k video_class)
  with start_runs [OF assms(1,2) k(1) _ _ assms(4), of "frontierConfig (Load env)" ?cl "{}"]
    assembled_ready [OF main_crawler_assembled [OF assms(3)], of ev seeds D m]
  obtain C where "crawl_contract.sim (NewFrontier ev (frontierConfig (Load env)) (Some ?cl)) ?cl
      (time_ok (frontierConfig (Load env))) D docs (bloom_maintenance ev) {} ?k C k"
    unfolding k Load_urls by blast
  then show ?thesis using crawl_contract.sim_def [OF ct] k by metis
qed

subsection \<open>Instances\<close>

abbreviation sample_driver :: "(unit go_error, (string \<times> Video) list) driver" where
  "sample_driver \<equiv> ref_driver"

definition sample_crawler :: "db \<Rightarrow> (db, (string \<times> Video) list, unit go_error) Crawler" where
  "sample_crawler s = main_crawler ref_eval (Load (\<lambda>_. '''')) None sample_driver [] (sample_world s)"

lemma sample_times: "\<forall>t \<in> sset (clock (sample_world s)). time_ok (frontierConfig (Load (\<lambda>_. ''''))) t"
  by (simp add: sample_world_def time_ok_def frontierConfig_def Load_def Let_def getEnvInt_def wrap64_id
      time_Hour_def time_Second_def time_Unix_def PendingScore_def go_div_def)

lemma sample_assembled: "assembled ref_eval [base_url] sample_driver (sample_crawler s)"
  using main_crawler_assembled [OF sample_times, of ref_eval None sample_driver "[]" s]
  by (simp add: sample_crawler_def readSeedURLs_def)

lemma sample_state: "conf (sample_crawler s) = Load (\<lambda>_. '''')" "fstate (sample_crawler s) = s" "mstate (sample_crawler s) = []"
  "frontier (sample_crawler s) = NewFrontier ref_eval (frontierConfig (Load (\<lambda>_. ''''))) (Some (NewURLClassifier (Load (\<lambda>_. '''')) [base_url]))"
  by (simp_all add: sample_crawler_def main_crawler_def New_crawler_def sample_world_def Let_def readSeedURLs_def)

definition sample_turn :: turn where
  "sample_turn = \<lparr>ctx_done = False, wait_err = False, fetched = Response 200 (Some
     \<lparr>title_text = ''T - VidLii'', hrefs = [''/watch?v=b''], date_text = '''', duration_attr = ''''\<rparr>)\<rparr>"

text \<open>A database to which one video has been admitted, and a worker on it.\<close>

abbreviation sample_config :: FrontierConfig where
  "sample_config \<equiv> frontierConfig (Load (\<lambda>_. ''''))"

abbreviation sample_class :: URLClassifier where
  "sample_class \<equiv> NewURLClassifier (Load (\<lambda>_. '''')) [base_url]"

definition sample_url :: string where "sample_url = base_url @ watch @ ''a''"

definition sample_db :: db where
  "sample_db = snd (AdmitVideo (NewFrontier ref_eval sample_config (Some sample_class)) 0 sample_url empty_db)"

lemma sample_db_value: "AdmitVideo (NewFrontier ref_eval sample_config (Some sample_class)) 0 sample_url empty_db = (Inr New, sample_db)"
  "dlists sample_db keyReady = [job_member 1 sample_url]"
  by (simp_all add: sample_db_def NewFrontier_def Let_def fr_AdmitVideo_def luaAdmitVideo_def call_defs empty_db_def New_def)

lemma sample_run: "crawls ref_eval sample_config sample_class sample_driver map_of ({}, empty_db, []) ({sample_url}, sample_db, [])"
proof -
  have "sample_class sample_url = ClassVideo"
    by (simp add: sample_url_def video_class Contains_base) (simp add: Contains_def Index_here)
  then have "frontier_step (NewFrontier ref_eval sample_config (Some sample_class)) sample_class (time_ok sample_config)
      ({}, empty_db) (claim sample_url (Inr New) {}, sample_db)"
    using sample_db_value(1) by (rule frontier_step.admit_video)
  then have "crawls ref_eval sample_config sample_class sample_driver map_of
      ({}, empty_db, []) ({} \<union> {sample_url}, sample_db, [])"
    by (intro r_into_rtranclp crawl_step.frontier_call) (simp_all add: claim_def)
  then show ?thesis by simp
qed

theorem reconcilers_refine_witness:
  "\<exists>k'. runSweeper (frontier (sample_crawler empty_db)) [(False, (), False)] (sample_crawler empty_db) = Some k' \<and>
     crawls ref_eval (frontierConfig (Load (\<lambda>_. ''''))) (NewURLClassifier (Load (\<lambda>_. '''')) [base_url]) sample_driver map_of
       ({}, empty_db, []) ({}, fstate k', mstate k')"
proof -
  obtain k' where k': "runSweeper (frontier (sample_crawler empty_db)) [(False, (), False)] (sample_crawler empty_db) = Some k'"
    unfolding runSweeper_def by (simp add: sample_crawler_def main_crawler_def New_crawler_def sample_world_def Let_def)
  have "redis_server ref_eval" "mongo_store sample_driver map_of"
    by unfold_locales
  from reconcilers_refine [OF this sample_assembled disjI2 [OF disjI2 [OF disjI2 [OF k']]], of "{}"] k'
  show ?thesis by (auto simp: sample_state)
qed

theorem startup_refines_witness:
  "\<exists>res k C. production_start ref_eval None (Inr (sample_info 0)) (Some ''https://www.vidlii.com/x'') True
       (main_crawler ref_eval (Load (\<lambda>_. '''')) (Some ''https://www.vidlii.com/x'') sample_driver [] (sample_world empty_db) ::
          (db, (string \<times> Video) list, unit go_error) Crawler) = (res, k) \<and>
     crawls ref_eval (frontierConfig (Load (\<lambda>_. ''''))) (NewURLClassifier (Load (\<lambda>_. '''')) (readSeedURLs (Some ''https://www.vidlii.com/x'') base_url))
       sample_driver map_of ({}, empty_db, []) (C, fstate k, mstate k)"
proof -
  obtain res k where start: "production_start ref_eval None (Inr (sample_info 0)) (Some ''https://www.vidlii.com/x'') True
     (main_crawler ref_eval (Load (\<lambda>_. '''')) (Some ''https://www.vidlii.com/x'') sample_driver [] (sample_world empty_db) ::
        (db, (string \<times> Video) list, unit go_error) Crawler) = (res, k)" by fastforce
  have "redis_server ref_eval" "mongo_store sample_driver map_of"
    by unfold_locales
  from startup_refines [OF this sample_times start] start show ?thesis by (auto simp: sample_world_def)
qed

end
