(* ===== verification/Worker_Errors.thy ===== *)
theory Worker_Errors
  imports Crawl_Safety
begin

text \<open>
  Which errors end the crawl: those of scripts and of the server during an admission do, a lost
  connection never does. And the two places that compute the deadline of a quarantine agree.
\<close>

lemma fcall_same: "fcall op k = (r, k') \<Longrightarrow> frontier k' = frontier k \<and> stopped k' = stopped k"
  using fcall_more [of op k r k'] fcall_frame [of op k r k'] by simp

lemma aborts_start: "aborts sc s s"
  by (cases sc) auto

definition network_only :: "server \<Rightarrow> bool" where
  "network_only ev \<longleftrightarrow> (\<forall>sc s e s'. ev sc s = (Inl e, s') \<longrightarrow> (\<exists>msg. e = NetworkError msg))"

lemma admit_reply_int:
  "completes (luaAdmitVideo keyReady bloomKey keyDead keyJobSeq u now) s r t \<Longrightarrow> \<exists>k. r = RInt k"
  "completes (luaAdmitListing keyReady keyListingNext keyDead keyJobSeq u now PendingScore) s r t \<Longrightarrow> \<exists>k. r = RInt k"
  by (auto simp: luaAdmitVideo_def luaAdmitListing_def call_defs store_simps bf_add_def Let_def
      split: option.splits if_splits)

lemma int_reply_error:
  assumes "redis_server ev" "network_only ev" "ev sc s = (res, s')"
    and "\<And>r t. completes sc s r t \<Longrightarrow> \<exists>k. r = RInt k" and "cmd_Int64 res = Inl e"
  shows "\<not> is_redis_error e"
proof (cases res)
  case (Inl e')
  moreover from this obtain msg where "e' = NetworkError msg" using assms(2,3) unfolding network_only_def by blast
  ultimately show ?thesis using assms(5) by auto
next
  case (Inr r)
  then show ?thesis using redis_server.eval_done [OF assms(1)] assms(3,4,5) by fastforce
qed

lemma admit_error:
  assumes "redis_server ev" "network_only ev" "frontier k = NewFrontier ev c (Some cl)"
    and "admitURL raw k = (Inl e, k')"
  shows "\<not> is_redis_error e"
proof -
  let ?f = "\<lparr>client = ev, classify = Some cl, cfg = c\<rparr>"
  obtain now u where "fr_AdmitVideo ?f now u (fstate k) = (Inl e, fstate k') \<or> fr_AdmitListing ?f now u (fstate k) = (Inl e, fstate k')"
    using assms(3,4) by (auto simp: admitURL_def Let_def NewFrontier_def split: if_splits dest!: fcall_result)
  then show ?thesis
    using int_reply_error [OF assms(1,2) _ admit_reply_int(1)] int_reply_error [OF assms(1,2) _ admit_reply_int(2)]
    by (auto simp: fr_AdmitVideo_def fr_AdmitListing_def Let_def split: prod.splits)
qed

lemma enqueue_error:
  assumes "redis_server ev" "network_only ev"
  shows "frontier k = NewFrontier ev c (Some cl) \<Longrightarrow> enqueue_loop n ls k = ((n', res), k') \<Longrightarrow>
    frontier k' = frontier k \<and> stopped k' = stopped k \<and> (\<forall>e. res = Some e \<longrightarrow> \<not> is_redis_error e)"
proof (induction ls arbitrary: n k)
  case (Cons raw ls)
  obtain r k1 where admit: "admitURL raw k = (r, k1)" by fastforce
  then have k1: "frontier k1 = frontier k" "stopped k1 = stopped k"
    by (auto simp: admitURL_def Let_def split: if_splits dest!: fcall_same)
  show ?case
  proof (cases r)
    case (Inl e)
    with Cons.prems admit k1 admit_error [OF assms Cons.prems(1)] show ?thesis by auto
  next
    case (Inr a)
    with Cons.IH [of k1] Cons.prems admit k1 show ?thesis by auto
  qed
qed auto

lemma resolve_frame: "stopped (resolve op k) = stopped k \<and> frontier (resolve op k) = frontier k"
  by (auto simp: resolve_def split: prod.splits sum.splits dest!: fcall_same)

lemma handle_frame:
  assumes "redis_server ev" "network_only ev" "frontier k = NewFrontier ev c (Some cl)"
  shows "stopped (handleOutcome job out k) = stopped k \<and> frontier (handleOutcome job out k) = frontier k"
proof -
  have rec: "frontier (recordVideo v k') = frontier k' \<and> stopped (recordVideo v k') = stopped k'" for v and k' :: "(db, 'a, 'b) Crawler"
    by (simp add: recordVideo_def Let_def)
  have enq: "frontier k2 = frontier k1 \<and> stopped k2 = stopped k1 \<and> (\<forall>e. res = Some e \<longrightarrow> \<not> is_redis_error e)"
    if "frontier k1 = frontier k" "enqueueChildren ls k1 = ((n, res), k2)" for ls n res and k1 k2 :: "(db, 'a, 'b) Crawler"
    using enqueue_error [OF assms(1,2)] that assms(3) unfolding enqueueChildren_def by metis
  show ?thesis
  proof (cases "kind out")
    case pageVideo
    obtain err m' where up: "Upsert (mongo k) (video out) (mstate k) = (err, m')" by fastforce
    let ?k0 = "recordVideo (video out) (k\<lparr>mstate := m'\<rparr>)"
    obtain n res k2 where q: "enqueueChildren (links out) ?k0 = ((n, res), k2)" by (metis prod.exhaust)
    from enq [OF _ q] pageVideo up q show ?thesis
      by (cases err; cases res) (simp_all add: handleOutcome_def resolve_frame rec maybeFatalAdmission_def)
  next
    case pageListing
    obtain n res k2 where q: "enqueueChildren (links out) k = ((n, res), k2)" by (metis prod.exhaust)
    from enq [OF refl q] pageListing q show ?thesis
      by (cases res) (simp_all add: handleOutcome_def resolve_frame maybeFatalAdmission_def)
  qed (simp_all add: handleOutcome_def resolve_frame)
qed

lemma worker_not_stopped:
  assumes "redis_server ev" "network_only ev"
  shows "frontier k = NewFrontier ev c (Some cl) \<Longrightarrow> stopped (worker tbl ts k) = stopped k"
proof (induction ts arbitrary: k)
  case (Cons t ts)
  obtain r k1 where lease: "fcall (Lease (frontier k)) k = (r, k1)" by fastforce
  note k1 = conjunct1 [OF fcall_same [OF lease]] conjunct2 [OF fcall_same [OF lease]]
  have job: "stopped (worker tbl ts (handleOutcome job out k2)) = stopped k"
    if "process tbl (jobURL job) (fetched t) k1 = (out, k2)" for job out k2
  proof -
    have k2: "frontier k2 = frontier k" "stopped k2 = stopped k" using process_frame [OF that] k1 by auto
    with handle_frame [OF assms, of k2 c cl job out] Cons.IH Cons.prems show ?thesis by simp
  qed
  show ?case
    using Cons.IH [of k1] Cons.IH [of "Inc LeaseErrors_update k1"] Cons.prems k1 lease job
    by (auto simp: resolve_frame split: sum.split option.split prod.split)
qed simp



text \<open>
  Two computations of a quarantine agree. The deadline a worker computes for a page that is gone, in
  the encoding Terminal gives it, is the one Fail computes inside the frontier from the configuration main
  translates: 0 for a video, else the same second.
\<close>

theorem until_agrees:
  assumes "cfg f = frontierConfig cf" and "0 < time_Unix (now + quarantine_of cf)"
  shows "unixOrZero (untilFor k (quarantine_of cf) now) = quarantineUntil f k now"
  using assms
  by (auto simp: unixOrZero_def untilFor_def quarantineUntil_def quarantine_config zero_time_def time_Unix_def time_Second_def)

theorem until_agrees_witness:
  "unixOrZero (untilFor ClassListing (quarantine_of (Load (\<lambda>_. ''''))) 0) = 7 * 24 * 3600"
proof -
  let ?f = "\<lparr>client = ref_eval, classify = None, cfg = frontierConfig (Load (\<lambda>_. ''''))\<rparr>"
  have "quarantine_of (Load (\<lambda>_. '''')) = 7 * 24 * time_Hour"
    by (simp add: quarantine_of_def Load_def Let_def getEnvInt_def wrap64_id time_Hour_def time_Second_def)
  with until_agrees [of ?f "Load (\<lambda>_. '''')" 0 ClassListing] show ?thesis
    by (simp add: quarantineUntil_def quarantine_config [symmetric] time_Unix_def time_Hour_def time_Second_def)
qed

end
