(* ===== verification/Worker_Turns.thy ===== *)
theory Worker_Turns
  imports Crawl_Safety
begin

text \<open>
  The end of a turn: whatever page the worker got and whatever failed on the way, its job has left
  processing and its lease is gone, or the failure to resolve it has been counted.
\<close>

subsection \<open>A resolution that is carried out\<close>

definition gone :: "string \<Rightarrow> db \<Rightarrow> bool" where
  "gone m s \<longleftrightarrow> m \<notin> zmembers (dzsets s keyLease) \<and> m \<notin> set (dlists s keyProcessing)"

lemma fail_ends_finish:
  assumes "m \<notin> zmembers (dzsets s keyLease)" "distinct (dlists s keyProcessing)"
  shows "always (\<lambda>_. True) (\<lambda>r t. r \<noteq> RBulk ''STALE'' \<and> gone m t)
     (fail_delay keyProcessing keyDelayed keyJobSeq m u now til ladder tries) s"
    and "always (\<lambda>_. True) (\<lambda>r t. r \<noteq> RBulk ''STALE'' \<and> gone m t)
     (fail_bury keyProcessing keyDead keyAttempts keyStrikes keyListingNext m u why til) s"
  using assms by (simp_all add: fail_delay_def fail_bury_def gone_def call_defs store_simps Let_def split: option.split)

lemma resolving_finishes:
  assumes "resolving m sc" and "m \<in> zmembers (dzsets s keyLease)" "distinct (dlists s keyProcessing)"
  shows "always (\<lambda>_. True) (\<lambda>r t. r \<noteq> RBulk ''STALE'' \<and> gone m t) sc s"
  using assms(1)
proof (cases rule: resolving.cases)
  case (3 u strike maxs now why til ladder)
  show ?thesis unfolding 3
    using assms(2,3) by (simp add: luaFail_def call_defs store_simps Let_def STALE_def fail_ends_finish split: option.split)
qed (use assms(2,3) in \<open>simp_all add: resolving_defs gone_def call_defs store_simps Let_def STALE_def OK_def split: option.split\<close>)

text \<open>How a completion call reports what its script came to.\<close>

definition reports :: "redisFrontier \<Rightarrow> string \<Rightarrow> db \<Rightarrow> (gerr + 'a) \<times> db \<Rightarrow> bool" where
  "reports f m s out \<longleftrightarrow>
     (\<exists>sc. resolving m sc \<and> snd out = snd (client f sc s) \<and>
       (\<forall>x. fst out = Inr x \<longrightarrow> (\<exists>r. fst (client f sc s) = Inr r)) \<and>
       (fst out = Inl ErrStaleLease \<longrightarrow> fst (client f sc s) = Inr (RBulk ''STALE'')))"

lemma cmd_Text_stale: "cmd_Text res = Inr ''STALE'' \<longleftrightarrow> res = Inr (RBulk ''STALE'')" "cmd_Text res \<noteq> Inl ErrStaleLease"
  "cmd_Text res = Inr x \<Longrightarrow> \<exists>r. res = Inr r"
  by (cases res rule: cmd_Text.cases; simp)+

lemma reportsI:
  assumes "resolving m sc" "client f sc s = p" "snd out = snd p"
    and "fst out = (case cmd_Text (fst p) of Inl e \<Rightarrow> Inl e | Inr x \<Rightarrow> if x = ''STALE'' then Inl ErrStaleLease else g x)"
    and "\<And>x. g x \<noteq> Inl ErrStaleLease"
  shows "reports f m s out"
  unfolding reports_def
proof (intro exI conjI)
  show "\<forall>x. fst out = Inr x \<longrightarrow> (\<exists>r. fst (client f sc s) = Inr r)"
  proof (cases "cmd_Text (fst p)")
    case (Inl e)
    then show ?thesis using assms(4) by simp
  next
    case (Inr x)
    then show ?thesis using cmd_Text_stale(3) [OF Inr] assms(2) by simp
  qed
  show "fst out = Inl ErrStaleLease \<longrightarrow> fst (client f sc s) = Inr (RBulk ''STALE'')"
  proof (cases "cmd_Text (fst p)")
    case (Inl e)
    then show ?thesis using assms(4) cmd_Text_stale(2) [of "fst p"] by simp
  next
    case (Inr x)
    then show ?thesis using assms(2,4,5) cmd_Text_stale(1) [of "fst p"] by (cases "x = ''STALE''") simp_all
  qed
qed (use assms in simp_all)

lemma ack_reports: "reports f (jobMember j) s (fr_Ack f j s)"
  by (rule reportsI [OF resolving.intros(1) refl, where g = "\<lambda>_. Inr ()"])
     (simp_all add: fr_Ack_def stale_check_def Let_def)

lemma nack_reports: "reports f (jobMember j) s (fr_Nack f j s)"
  by (rule reportsI [OF resolving.intros(2) refl, where g = "\<lambda>_. Inr ()"])
     (simp_all add: fr_Nack_def stale_check_def Let_def)

lemma terminal_reports: "reports f (jobMember j) s (fr_Terminal f j why til s)"
  by (rule reportsI [OF resolving.intros(4) refl, where g = "\<lambda>_. Inr ()"])
     (simp_all add: fr_Terminal_def stale_check_def Let_def)

lemma complete_reports: "reports f (jobMember j) s (fr_CompleteListing f now j n s)"
  by (rule reportsI [OF resolving.intros(5) refl, where g = "\<lambda>_. Inr ()"])
     (simp_all add: fr_CompleteListing_def stale_check_def Let_def)

lemma fail_reports: "reports f (jobMember j) s (fr_Fail f now j fc s)"
  by (cases fc; rule reportsI [OF resolving.intros(3) refl, where g =
        "\<lambda>x. if x = ''DEAD'' then Inr Dead else if x = ''DELAYED'' then Inr Delayed else Inl (BadReply x)"];
      simp add: fr_Fail_def Let_def)

subsection \<open>What admission leaves alone\<close>

definition same_leases :: "db \<Rightarrow> db \<Rightarrow> bool" where
  "same_leases s t \<longleftrightarrow> dzsets t keyLease = dzsets s keyLease \<and> dlists t keyProcessing = dlists s keyProcessing"

lemma admit_video_same: "always (same_leases s) (\<lambda>_ _. True) (luaAdmitVideo keyReady bloomKey keyDead keyJobSeq u now) s"
proof -
  have "always (same_leases s) (\<lambda>_ _. True)
      (call_int (INCR keyJobSeq) (\<lambda>n. let item = job_member n u in
       call_do (LPUSH keyReady item) (
       call_int (BFADD bloomKey u) (\<lambda>added.
         if added = 0 then call_do (LREM keyReady item) (Return (RInt 0)) else Return (RInt 1))))) t"
    if "same_leases s t" for t
    using that by (auto simp: call_defs store_simps bf_add_def Let_def same_leases_def)
  moreover have "same_leases s s" "same_leases s (s\<lparr>dhashes := h\<rparr>)" for h by (simp_all add: same_leases_def)
  ultimately show ?thesis
    by (simp add: luaAdmitVideo_def call_bulk_def call_do_def store_simps Let_def split: option.split)
qed

lemma admit_listing_same:
  "always (same_leases s) (\<lambda>_ _. True) (luaAdmitListing keyReady keyListingNext keyDead keyJobSeq u now PendingScore) s"
  by (cases "map_of (dhashes s keyDead) u"; cases "zscore (dzsets s keyListingNext) u")
     (simp_all add: luaAdmitListing_def call_defs store_simps Let_def same_leases_def split: option.split)

lemma admitURL_same:
  assumes "redis_server ev" "frontier k = NewFrontier ev c (Some cl)" "admitURL raw k = (r, k')"
  shows "same_leases (fstate k) (fstate k') \<and> frontier k' = frontier k \<and> metrics k' = metrics k"
proof -
  let ?f = "\<lparr>client = ev, classify = Some cl, cfg = c\<rparr>"
  have video: "same_leases s (snd (fr_AdmitVideo ?f now u s))" for now u s
    using redis_server.eval_inv [OF assms(1) admit_video_same] by (simp add: fr_AdmitVideo_def Let_def)
  have listing: "same_leases s (snd (fr_AdmitListing ?f now u s))" for now u s
    using redis_server.eval_inv [OF assms(1) admit_listing_same] by (simp add: fr_AdmitListing_def Let_def)
  have F: "AdmitVideo (frontier k) = fr_AdmitVideo ?f" "AdmitListing (frontier k) = fr_AdmitListing ?f"
    by (simp_all add: assms(2) NewFrontier_def Let_def)
  have call: "same_leases (fstate k) (fstate k') \<and> frontier k' = frontier k \<and> metrics k' = metrics k"
    if "fcall op k = (r, k')" "same_leases (fstate k) (snd (op (shd (clock k)) (fstate k)))" for op
    using that fcall_result [OF that(1)] fcall_more [OF that(1)] fcall_frame [OF that(1)] by simp
  show ?thesis
  proof (cases "canonicalize (conf k) raw = ''''")
    case True
    with assms(3) show ?thesis by (simp add: admitURL_def same_leases_def)
  next
    case False
    with assms(3) F show ?thesis
      by (cases "Contains (canonicalize (conf k) raw) (VideoPattern (conf k))")
         (auto simp: admitURL_def Let_def video listing intro!: call)
  qed
qed

lemma same_leases_trans: "same_leases s t \<Longrightarrow> same_leases t u \<Longrightarrow> same_leases s u"
  by (simp add: same_leases_def)

lemma enqueue_same:
  assumes "redis_server ev"
  shows "frontier k = NewFrontier ev c (Some cl) \<Longrightarrow> enqueue_loop n ls k = (res, k') \<Longrightarrow>
    same_leases (fstate k) (fstate k') \<and> frontier k' = frontier k \<and> metrics k' = metrics k"
proof (induction ls arbitrary: n k)
  case Nil
  then show ?case by (simp add: same_leases_def)
next
  case (Cons raw ls)
  obtain r k1 where admit: "admitURL raw k = (r, k1)" by fastforce
  note k1 = admitURL_same [OF assms Cons.prems(1) admit]
  show ?case
  proof (cases r)
    case (Inl e)
    with k1 admit Cons.prems(2) show ?thesis by simp
  next
    case (Inr a)
    then obtain j where "enqueue_loop j ls k1 = (res, k')" using admit Cons.prems(2) by auto
    from Cons.IH [OF _ this] k1 Cons.prems(1) show ?thesis by (auto intro: same_leases_trans)
  qed
qed

subsection \<open>The end of a turn\<close>

definition held :: "string \<Rightarrow> db \<Rightarrow> bool" where
  "held m s \<longleftrightarrow> m \<in> zmembers (dzsets s keyLease) \<and> distinct (dlists s keyProcessing)"

lemma held_same: "same_leases s t \<Longrightarrow> held m s \<Longrightarrow> held m t"
  by (simp add: held_def same_leases_def)

text \<open>The job is out of processing, or one more failed resolution has been counted than \<open>n\<close>.\<close>

definition ended :: "string \<Rightarrow> int \<Rightarrow> (db, 'm, 'e) Crawler \<Rightarrow> bool" where
  "ended m n k \<longleftrightarrow> gone m (fstate k) \<or> ResolveErrors (metrics k) = n + 1"

lemma resolve_ends:
  assumes "redis_server (client f)" "held m (fstate k)" "\<And>now s. reports f m s (op now s)"
  shows "ended m (ResolveErrors (metrics k)) (resolve op k)"
proof -
  obtain r k1 where call: "fcall op k = (r, k1)" by fastforce
  obtain sc where sc: "resolving m sc" "fstate k1 = snd (client f sc (fstate k))"
    "\<And>x. r = Inr x \<Longrightarrow> \<exists>q. fst (client f sc (fstate k)) = Inr q"
    "r = Inl ErrStaleLease \<Longrightarrow> fst (client f sc (fstate k)) = Inr (RBulk ''STALE'')"
    using assms(3) [of "fstate k" "shd (clock k)"] fcall_result [OF call] by (auto simp: reports_def)
  have run: "always (\<lambda>_. True) (\<lambda>r t. r \<noteq> RBulk ''STALE'' \<and> gone m t) sc (fstate k)"
    using resolving_finishes [OF sc(1)] assms(2) by (simp add: held_def)
  have post: "q \<noteq> RBulk ''STALE'' \<and> gone m (fstate k1)" if "fst (client f sc (fstate k)) = Inr q" for q
    using redis_server.eval_post [OF assms(1) run, of q "fstate k1"] sc(2) that by (metis prod.collapse)
  have same: "metrics k1 = metrics k" using fcall_frame [OF call] by simp
  show ?thesis
  proof (cases r)
    case (Inl e)
    then show ?thesis
      using sc(4) post call same by (cases "e = ErrStaleLease") (auto simp: resolve_def ended_def)
  next
    case (Inr x)
    with sc(3) post call show ?thesis by (auto simp: resolve_def ended_def)
  qed
qed

lemma ended_stop: "ended m n (maybeFatalAdmission e k) \<longleftrightarrow> ended m n k"
  by (simp add: maybeFatalAdmission_def ended_def)

lemma handle_ends:
  assumes "redis_server ev" "frontier k = NewFrontier ev c (Some cl)" "held (jobMember job) (fstate k)"
  shows "ended (jobMember job) (ResolveErrors (metrics k)) (handleOutcome job out k)"
proof -
  let ?f = "\<lparr>client = ev, classify = Some cl, cfg = c\<rparr>" and ?m = "jobMember job"
  have F: "Ack (frontier k) = fr_Ack ?f" "Nack (frontier k) = fr_Nack ?f" "Fail (frontier k) = fr_Fail ?f"
    "Terminal (frontier k) = fr_Terminal ?f" "CompleteListing (frontier k) = fr_CompleteListing ?f"
    by (simp_all add: assms(2) NewFrontier_def Let_def)
  have ends: "ended ?m (ResolveErrors (metrics k)) (resolve op k1)"
    if "ResolveErrors (metrics k1) = ResolveErrors (metrics k)" "held ?m (fstate k1)" "\<And>now s. reports ?f ?m s (op now s)"
    for op :: "time \<Rightarrow> db \<Rightarrow> (gerr + 'r) \<times> db" and k1
    using resolve_ends [of ?f ?m k1 op] that assms(1) by simp
  have enq: "ResolveErrors (metrics k2) = ResolveErrors (metrics k) \<and> held ?m (fstate k2) \<and> frontier k2 = frontier k"
    if "enqueueChildren ls k1 = (res, k2)" "frontier k1 = frontier k" "fstate k1 = fstate k"
      "ResolveErrors (metrics k1) = ResolveErrors (metrics k)" for ls res k1 k2
    using enqueue_same [OF assms(1), of k1 c cl 0 ls res k2] that assms(2,3)
    unfolding enqueueChildren_def by (auto intro: held_same)
  show ?thesis
  proof (cases "kind out")
    case pageVideo
    obtain err m' where up: "Upsert (mongo k) (video out) (mstate k) = (err, m')" by fastforce
    let ?k0 = "recordVideo (video out) (k\<lparr>mstate := m'\<rparr>)"
    obtain n res k2 where q: "enqueueChildren (links out) ?k0 = ((n, res), k2)" by (metis prod.exhaust)
    have "ResolveErrors (metrics k2) = ResolveErrors (metrics k) \<and> held ?m (fstate k2) \<and> frontier k2 = frontier k"
      by (rule enq [OF q]) (simp_all add: recordVideo_def Let_def)
    with pageVideo up q assms(3) F show ?thesis
      by (cases err; cases res)
         (simp_all add: handleOutcome_def ended_stop ends ack_reports nack_reports)
  next
    case pageListing
    obtain n res k2 where q: "enqueueChildren (links out) k = ((n, res), k2)" by (metis prod.exhaust)
    have "ResolveErrors (metrics k2) = ResolveErrors (metrics k) \<and> held ?m (fstate k2) \<and> frontier k2 = frontier k"
      by (rule enq [OF q]) simp_all
    with pageListing q F show ?thesis
      by (cases res) (simp_all add: handleOutcome_def ended_stop ends complete_reports nack_reports)
  qed (use assms(3) F in \<open>simp_all add: handleOutcome_def Let_def ends nack_reports terminal_reports fail_reports\<close>)
qed

context redis_frontier
begin

lemma lease_keeps: "frontier_inv (\<lambda>u. cl u = ClassVideo) A s \<Longrightarrow>
  frontier_inv (\<lambda>u. cl u = ClassVideo) A (snd (Lease (NewFrontier eval c (Some cl)) now s))"
  by (rule Lease_inv)

end

lemma lease_held:
  assumes "redis_server ev" "frontier_inv (\<lambda>u. cl u = ClassVideo) A s"
    and "Lease (NewFrontier ev c (Some cl)) now s = (Inr (Some job), s')"
  shows "held (jobMember job) s'"
proof -
  have "frontier_inv (\<lambda>u. cl u = ClassVideo) A s'"
    using redis_frontier.lease_keeps [OF redis_frontier.intro [OF assms(1)] assms(2), of c now] assms(3) by simp
  moreover have "fr_Lease (mk_frontier ev c cl) now s = (Inr (Some job), s')"
    using assms(3) by (simp add: NewFrontier_def Let_def)
  then have "zscore (dzsets s' keyLease) (jobMember job) \<noteq> None"
    using lease_pops(6) [OF assms(1)] by simp
  ultimately show ?thesis using inv_facts(1) by (simp add: held_def)
qed

lemma process_resolve: "process tbl url got k = (out, k') \<Longrightarrow>
  ResolveErrors (metrics k') = ResolveErrors (metrics k) \<and> fstate k' = fstate k \<and> frontier k' = frontier k"
  by (auto simp: process_def Let_def split: fetch.splits option.splits if_splits)

text \<open>
  C5: a turn ends its job. A worker that leases a job in any reachable state has, at the end of the turn,
  moved it out of processing and given up its lease, or has counted one more failed resolution: whatever
  the page was, whichever links it had, and whatever the server and the store did in between. (Only the
  second case leaves work for the reaper.)
\<close>

theorem turn_ends_job:
  assumes "redis_server ev" and "mongo_store D docs" and "assembled ev seeds D k"
    and "crawls ev (frontierConfig (conf k)) (NewURLClassifier (conf k) seeds) D docs ({}, empty_db, m0) (C, fstate k, mstate k)"
    and "\<not> stopped k" and "\<not> ctx_done t" and "fcall (Lease (frontier k)) k = (Inr (Some job), k1)"
  shows "gone (jobMember job) (fstate (worker tbl [t] k)) \<or>
    ResolveErrors (metrics (worker tbl [t] k)) = ResolveErrors (metrics k) + 1"
proof -
  let ?cl = "NewURLClassifier (conf k) seeds" and ?c = "frontierConfig (conf k)"
  have F: "frontier k = NewFrontier ev ?c (Some ?cl)" using assms(3) by (simp add: assembled_def)
  have "Lease (NewFrontier ev ?c (Some ?cl)) (shd (clock k)) (fstate k) = (Inr (Some job), fstate k1)"
    using fcall_result [OF assms(7)] F by simp
  then have held: "held (jobMember job) (fstate k1)"
    by (rule lease_held [OF assms(1) crawls_inv [OF assms(1,2,4)]])
  have k1: "frontier k1 = NewFrontier ev ?c (Some ?cl)" "metrics k1 = metrics k"
    using fcall_more [OF assms(7)] fcall_frame [OF assms(7)] F by simp_all
  show ?thesis
  proof (cases "wait_err t")
    case True
    have "Nack (frontier k1) job s = fr_Nack (mk_frontier ev ?c ?cl) job s" for s
      by (simp add: k1 NewFrontier_def Let_def)
    then have "ended (jobMember job) (ResolveErrors (metrics k1)) (resolve (\<lambda>_. Nack (frontier k1) job) k1)"
      using resolve_ends [of "mk_frontier ev ?c ?cl", OF _ held, of "\<lambda>_. Nack (frontier k1) job"] assms(1)
      by (simp add: nack_reports)
    with True assms(5,6,7) k1 show ?thesis by (simp add: ended_def)
  next
    case False
    obtain out k2 where p: "process tbl (jobURL job) (fetched t) k1 = (out, k2)" by fastforce
    note k2 = process_resolve [OF p]
    have "ended (jobMember job) (ResolveErrors (metrics k2)) (handleOutcome job out k2)"
      by (rule handle_ends [OF assms(1)]) (use k1 k2 held in simp_all)
    with False p assms(5,6,7) k1 k2 show ?thesis by (simp add: ended_def)
  qed
qed

theorem turn_ends_job_witness:
  "\<exists>job k1. fcall (Lease (frontier (sample_crawler sample_db))) (sample_crawler sample_db) = (Inr (Some job), k1) \<and>
     (gone (jobMember job) (fstate (worker sample_tables [sample_turn] (sample_crawler sample_db))) \<or>
      ResolveErrors (metrics (worker sample_tables [sample_turn] (sample_crawler sample_db))) =
        ResolveErrors (metrics (sample_crawler sample_db)) + 1)"
proof -
  let ?k = "sample_crawler sample_db"
  obtain job s' where "Lease (frontier ?k) (shd (clock ?k)) (fstate ?k) = (Inr (Some job), s')"
    by (simp add: sample_state NewFrontier_def Let_def fr_Lease_def luaLease_def call_defs sample_db_value(2))
  then obtain k1 where lease: "fcall (Lease (frontier ?k)) ?k = (Inr (Some job), k1)"
    by (simp add: fcall_def)
  have "redis_server ref_eval" "mongo_store sample_driver map_of" by unfold_locales
  moreover have "\<not> stopped ?k" "\<not> ctx_done sample_turn"
    by (simp_all add: sample_crawler_def main_crawler_def New_crawler_def sample_world_def Let_def sample_turn_def)
  ultimately show ?thesis
    using turn_ends_job [OF _ _ sample_assembled _ _ _ lease, unfolded sample_state, OF _ _ sample_run] lease by blast
qed

end
