(* ===== verification/Goroutines.thy ===== *)
theory Goroutines
  imports Main
begin

text \<open>
  Goroutines: programs of atomic actions over a state they share, and their interleavings. An action is
  one change of the shared state and chooses, by the state it was carried out in, the rest of the program.
  In \<open>pool_step\<close> one program of a pool carries out its next action, or something outside the pool changes
  the state. Every program is finite; a loop without end is represented by its finite unfoldings, which
  have all of its finite runs.
\<close>

datatype 'c prog = Halt | Atomic "'c \<Rightarrow> 'c" "'c \<Rightarrow> 'c prog"

text \<open>An action without a result, and one whose result the rest of the program depends on.\<close>

definition act :: "('c \<Rightarrow> 'c) \<Rightarrow> 'c prog \<Rightarrow> 'c prog" where
  "act f p = Atomic f (\<lambda>_. p)"

definition ask :: "('c \<Rightarrow> 'r \<times> 'c) \<Rightarrow> ('r \<Rightarrow> 'c prog) \<Rightarrow> 'c prog" where
  "ask op k = Atomic (\<lambda>c. snd (op c)) (\<lambda>c. k (fst (op c)))"

text \<open>A read of the state that decides how the program goes on.\<close>

definition check :: "('c \<Rightarrow> bool) \<Rightarrow> 'c prog \<Rightarrow> 'c prog \<Rightarrow> 'c prog" where
  "check b p q = Atomic (\<lambda>c. c) (\<lambda>c. if b c then p else q)"

subsection \<open>A program by itself\<close>

primrec alone :: "'c prog \<Rightarrow> 'c \<Rightarrow> 'c" where
  "alone Halt c = c"
| "alone (Atomic f g) c = alone (g c) (f c)"

lemma alone_simps [simp]:
  "alone (act f p) c = alone p (f c)"
  "alone (ask op k) c = (case op c of (r, c') \<Rightarrow> alone (k r) c')"
  "alone (check b p q) c = alone (if b c then p else q) c"
  by (simp_all add: act_def ask_def check_def split: prod.split)

subsection \<open>Interleavings\<close>

inductive pool_step :: "('c \<Rightarrow> 'c \<Rightarrow> bool) \<Rightarrow> 'c prog list \<times> 'c \<Rightarrow> 'c prog list \<times> 'c \<Rightarrow> bool"
  for env :: "'c \<Rightarrow> 'c \<Rightarrow> bool" where
  turn: "i < length ps \<Longrightarrow> ps ! i = Atomic f g \<Longrightarrow> pool_step env (ps, c) (ps[i := g c], f c)"
| outside: "env c c' \<Longrightarrow> pool_step env (ps, c) (ps, c')"

inductive_cases pool_stepE: "pool_step env (ps, c) (ps', c')"

abbreviation pool_steps :: "('c \<Rightarrow> 'c \<Rightarrow> bool) \<Rightarrow> 'c prog list \<times> 'c \<Rightarrow> 'c prog list \<times> 'c \<Rightarrow> bool" where
  "pool_steps env \<equiv> (pool_step env)\<^sup>*\<^sup>*"

text \<open>The interleaving that a list of indices asks for.\<close>

fun schedule :: "nat list \<Rightarrow> 'c prog list \<times> 'c \<Rightarrow> 'c prog list \<times> 'c" where
  "schedule [] s = s"
| "schedule (i # is) (ps, c) =
     (if i < length ps
      then case ps ! i of Halt \<Rightarrow> schedule is (ps, c) | Atomic f g \<Rightarrow> schedule is (ps[i := g c], f c)
      else schedule is (ps, c))"

lemma schedule_steps: "pool_steps env (ps, c) (schedule is (ps, c))"
proof (induction "is" arbitrary: ps c)
  case (Cons i "is")
  show ?case
  proof (cases "i < length ps \<and> ps ! i \<noteq> Halt")
    case True
    then obtain f g where "ps ! i = Atomic f g" by (cases "ps ! i") auto
    moreover from this True have "pool_step env (ps, c) (ps[i := g c], f c)" by (auto intro: turn)
    ultimately show ?thesis using Cons True by (auto intro: converse_rtranclp_into_rtranclp)
  qed (use Cons in \<open>auto split: prog.split\<close>)
qed simp

text \<open>A program of the pool can always run to its end, and so can all: no program waits for another.\<close>

lemma one_ends: "i < length ps \<Longrightarrow> ps ! i = p \<Longrightarrow> pool_steps env (ps, c) (ps[i := Halt], alone p c)"
proof (induction p arbitrary: ps c)
  case Halt
  then have "ps[i := Halt] = ps" by (metis list_update_id)
  then show ?case by simp
next
  case (Atomic f g)
  have "pool_step env (ps, c) (ps[i := g c], f c)" using Atomic.prems by (auto intro: turn)
  moreover have "pool_steps env (ps[i := g c], f c) (ps[i := Halt], alone (g c) (f c))"
    using Atomic.IH [of "g c" "ps[i := g c]" "f c"] Atomic.prems by simp
  ultimately show ?case by (auto intro: converse_rtranclp_into_rtranclp)
qed

lemma alone_steps: "pool_steps env ([p], c) ([Halt], alone p c)"
  using one_ends [of 0 "[p]" p env c] by simp

lemma all_end: "\<exists>c'. pool_steps env (ps, c) (replicate (length ps) Halt, c')"
proof -
  have "\<exists>c'. pool_steps env (ps, c) (replicate n Halt @ drop n ps, c')" if "n \<le> length ps" for n
    using that
  proof (induction n)
    case (Suc n)
    then obtain c1 where c1: "pool_steps env (ps, c) (replicate n Halt @ drop n ps, c1)" by auto
    have "(replicate n Halt @ drop n ps)[n := Halt] = replicate (Suc n) Halt @ drop (Suc n) ps"
      using Suc.prems by (simp add: list_update_append Cons_nth_drop_Suc [symmetric] replicate_append_same [symmetric])
    with one_ends [of n "replicate n Halt @ drop n ps" _ env c1] Suc.prems
    have "\<exists>c2. pool_steps env (replicate n Halt @ drop n ps, c1) (replicate (Suc n) Halt @ drop (Suc n) ps, c2)" by auto
    with c1 show ?case by (meson rtranclp_trans)
  qed auto
  from this [of "length ps"] show ?thesis by simp
qed

subsection \<open>What every action of a program keeps\<close>

text \<open>
  A program follows a protocol from a local fact \<open>k\<close> if each of its actions, carried out where \<open>pre\<close>
  allows \<open>k\<close>, is a step that \<open>guar\<close> allows, to another local fact. The local fact is what one goroutine
  knows of the shared state, or what it still owes to it; it may end only with facts that \<open>fin\<close> allows.
\<close>

inductive follows_to ::
  "('k \<Rightarrow> bool) \<Rightarrow> ('c \<Rightarrow> 'k \<Rightarrow> bool) \<Rightarrow> ('c \<Rightarrow> 'k \<Rightarrow> 'c \<Rightarrow> 'k \<Rightarrow> bool) \<Rightarrow> 'k \<Rightarrow> 'c prog \<Rightarrow> bool"
  for fin :: "'k \<Rightarrow> bool" and pre :: "'c \<Rightarrow> 'k \<Rightarrow> bool" and guar :: "'c \<Rightarrow> 'k \<Rightarrow> 'c \<Rightarrow> 'k \<Rightarrow> bool" where
  halt: "fin k \<Longrightarrow> follows_to fin pre guar k Halt"
| atomic: "(\<And>c. pre c k \<Longrightarrow> \<exists>k'. guar c k (f c) k' \<and> follows_to fin pre guar k' (g c)) \<Longrightarrow>
    follows_to fin pre guar k (Atomic f g)"

inductive_cases follows_AtomicE: "follows_to fin pre guar k (Atomic f g)"
inductive_cases follows_HaltE: "follows_to fin pre guar k Halt"

abbreviation follows :: "('c \<Rightarrow> 'k \<Rightarrow> bool) \<Rightarrow> ('c \<Rightarrow> 'k \<Rightarrow> 'c \<Rightarrow> 'k \<Rightarrow> bool) \<Rightarrow> 'k \<Rightarrow> 'c prog \<Rightarrow> bool" where
  "follows \<equiv> follows_to (\<lambda>_. True)"

lemma follows_halt: "follows pre guar k Halt"
  by (rule follows_to.halt) simp

lemma follows_act:
  "(\<And>c. pre c k \<Longrightarrow> \<exists>k'. guar c k (f c) k' \<and> follows_to fin pre guar k' p) \<Longrightarrow> follows_to fin pre guar k (act f p)"
  unfolding act_def by (rule follows_to.atomic)

lemma follows_ask:
  "(\<And>c r c'. pre c k \<Longrightarrow> op c = (r, c') \<Longrightarrow> \<exists>k'. guar c k c' k' \<and> follows_to fin pre guar k' (h r)) \<Longrightarrow>
   follows_to fin pre guar k (ask op h)"
  unfolding ask_def by (rule follows_to.atomic) (metis prod.collapse)

lemma follows_check:
  "(\<And>c. pre c k \<Longrightarrow> b c \<Longrightarrow> \<exists>k'. guar c k c k' \<and> follows_to fin pre guar k' p) \<Longrightarrow>
   (\<And>c. pre c k \<Longrightarrow> \<not> b c \<Longrightarrow> \<exists>k'. guar c k c k' \<and> follows_to fin pre guar k' q) \<Longrightarrow>
   follows_to fin pre guar k (check b p q)"
  unfolding check_def by (rule follows_to.atomic) simp

lemma follows_ended:
  "list_all2 (follows_to fin pre guar) ks ps \<Longrightarrow> \<forall>p \<in> set ps. p = Halt \<Longrightarrow> \<forall>k \<in> set ks. fin k"
  by (induction rule: list_all2_induct) (auto elim: follows_HaltE)

text \<open>
  The interface between a pool and an invariant of it: the invariant grants every program its local fact,
  and survives the steps the programs guarantee and those from outside.
\<close>

locale protocol =
  fixes inv :: "'c \<Rightarrow> 'k list \<Rightarrow> bool" and pre :: "'c \<Rightarrow> 'k \<Rightarrow> bool"
    and guar :: "'c \<Rightarrow> 'k \<Rightarrow> 'c \<Rightarrow> 'k \<Rightarrow> bool" and env :: "'c \<Rightarrow> 'c \<Rightarrow> bool"
  assumes grants: "inv c ks \<Longrightarrow> i < length ks \<Longrightarrow> pre c (ks ! i)"
    and kept: "inv c ks \<Longrightarrow> i < length ks \<Longrightarrow> guar c (ks ! i) c' k' \<Longrightarrow> inv c' (ks[i := k'])"
    and tolerates: "inv c ks \<Longrightarrow> env c c' \<Longrightarrow> inv c' ks"
begin

lemma step_keeps:
  assumes "pool_step env (ps, c) (ps', c')" and "list_all2 (follows_to fin pre guar) ks ps" and "inv c ks"
  shows "\<exists>ks'. list_all2 (follows_to fin pre guar) ks' ps' \<and> inv c' ks'"
proof (rule pool_stepE [OF assms(1)])
  fix i f g
  assume "ps' = ps[i := g c]" "c' = f c" "i < length ps" "ps ! i = Atomic f g"
  note run = this
  have i: "i < length ks" using run(3) assms(2) by (simp add: list_all2_lengthD)
  have "follows_to fin pre guar (ks ! i) (Atomic f g)" using list_all2_nthD2 [OF assms(2) run(3)] run(4) by simp
  then obtain k' where k': "guar c (ks ! i) (f c) k'" "follows_to fin pre guar k' (g c)"
    using grants [OF assms(3) i] by (auto elim: follows_AtomicE)
  have "list_all2 (follows_to fin pre guar) (ks[i := k']) (ps[i := g c])"
    by (rule list_all2_update_cong [OF assms(2) k'(2)])
  with kept [OF assms(3) i k'(1)] run(1,2) show ?thesis by blast
next
  assume "ps' = ps" "env c c'"
  with assms(2) tolerates [OF assms(3)] show ?thesis by blast
qed

lemma steps_keep:
  "pool_steps env (ps, c) (ps', c') \<Longrightarrow> list_all2 (follows_to fin pre guar) ks ps \<Longrightarrow> inv c ks \<Longrightarrow>
   \<exists>ks'. list_all2 (follows_to fin pre guar) ks' ps' \<and> inv c' ks'"
proof (induction rule: rtranclp_induct2)
  case (step ps1 c1 ps2 c2)
  then obtain ks1 where "list_all2 (follows_to fin pre guar) ks1 ps1" "inv c1 ks1" by blast
  with step(2) show ?case by (rule step_keeps)
qed blast

lemma alone_keeps:
  assumes "follows_to fin pre guar k p" and "inv c [k]"
  shows "\<exists>k'. inv (alone p c) [k']"
proof -
  have "list_all2 (follows_to fin pre guar) [k] [p]" using assms(1) by simp
  from steps_keep [OF alone_steps this assms(2)] show ?thesis by (auto simp: list_all2_Cons2)
qed

end

text \<open>A quantity summed over the local facts, when one of them changes.\<close>

lemma sum_list_map_update:
  fixes f :: "'k \<Rightarrow> int"
  shows "i < length ks \<Longrightarrow> sum_list (map f (ks[i := k'])) = sum_list (map f ks) + f k' - f (ks ! i)"
  by (induction ks arbitrary: i) (auto split: nat.split)

end
