(* ===== verification/Worker_Programs.thy ===== *)
theory Worker_Programs
  imports Worker_Runs Goroutines
begin

text \<open>
  The workers of \<^verbatim>\<open>crawler/worker.go\<close> as goroutines: the same code as in Worker, with every access to what
  the goroutines share (a script of the frontier, a replacement in the collection, a critical section of the
  crawler's mutex, a metric, the context) an action of its own, so that other goroutines may act between
  any two of them. Run by itself, each program is the function of Worker.
\<close>

type_synonym ('s, 'm, 'e) goroutine = "('s, 'm, 'e) Crawler prog"

subsection \<open>Recording, admission and resolution\<close>

text \<open>recordVideo locks the mutex twice, and the metric is a third access.\<close>

definition record_prog :: "Video \<Rightarrow> ('s, 'm, 'e) goroutine \<Rightarrow> ('s, 'm, 'e) goroutine" where
  "record_prog v p =
     act (\<lambda>c. c\<lparr>count := count c + 1\<rparr>)
       (if \<not> IsTarget v then p
        else act (\<lambda>c. c\<lparr>targets := targets c @ [v]\<rparr>) (act (Inc TargetsFound_update) p))"

text \<open>enqueueChildren: one admission, one call of the frontier, at a time.\<close>

primrec enqueue_prog ::
  "string list \<Rightarrow> int \<Rightarrow> (int \<times> gerr option \<Rightarrow> ('s, 'm, 'e) goroutine) \<Rightarrow> ('s, 'm, 'e) goroutine" where
  "enqueue_prog [] newCount k = k (newCount, None)"
| "enqueue_prog (raw # rest) newCount k =
     ask (admitURL raw) (\<lambda>r. case r of
         Inl e \<Rightarrow> k (newCount, Some e)
       | Inr res \<Rightarrow> enqueue_prog rest (if res = New then newCount + 1 else newCount) k)"

definition store_video :: "Video \<Rightarrow> ('s, 'm, 'e) Crawler \<Rightarrow> 'e option \<times> ('s, 'm, 'e) Crawler" where
  "store_video v c = (let (err, m') = Upsert (mongo c) v (mstate c) in (err, c\<lparr>mstate := m'\<rparr>))"

abbreviation nack_job :: "Job \<Rightarrow> ('s, 'm, 'e) crawler_op" where
  "nack_job job \<equiv> \<lambda>c. resolve (\<lambda>_. Nack (frontier c) job) c"

definition handle_prog :: "Job \<Rightarrow> pageOutcome \<Rightarrow> ('s, 'm, 'e) goroutine \<Rightarrow> ('s, 'm, 'e) goroutine" where
  "handle_prog job out p =
     (case kind out of
        pageVideo \<Rightarrow>
          ask (store_video (video out)) (\<lambda>err. case err of
              Some e \<Rightarrow> act (nack_job job) p
            | None \<Rightarrow> record_prog (video out) (enqueue_prog (links out) 0 (\<lambda>(_, err). case err of
                  Some e \<Rightarrow> act (nack_job job) (act (maybeFatalAdmission e) p)
                | None \<Rightarrow> act (\<lambda>c. resolve (\<lambda>_. Ack (frontier c) job) c) p)))
      | pageListing \<Rightarrow>
          enqueue_prog (links out) 0 (\<lambda>(n, err). case err of
              Some e \<Rightarrow> act (nack_job job) (act (maybeFatalAdmission e) p)
            | None \<Rightarrow> act (\<lambda>c. resolve (\<lambda>now. CompleteListing (frontier c) now job n) c) p)
      | pageNotFound \<Rightarrow>
          act (\<lambda>c. let quarantine = wrap64 (QuarantineListingHours (conf c) * time_Hour)
            in resolve (\<lambda>now. Terminal (frontier c) job (reason out) (untilFor (jobClass job) quarantine now)) c) p
      | pageRetryable \<Rightarrow> act (\<lambda>c. resolve (\<lambda>now. Fail (frontier c) now job (failClass out)) c) p
      | pageUnknown \<Rightarrow> act (\<lambda>c. resolve (\<lambda>now. Fail (frontier c) now job FailStrikeable) c) p
      | pageCancelled \<Rightarrow> act (nack_job job) p)"

subsection \<open>The loops\<close>

text \<open>The part of an iteration after a job has been leased, with what follows it.\<close>

definition job_prog :: "unicode_tables \<Rightarrow> turn \<Rightarrow> Job \<Rightarrow> ('s, 'm, 'e) goroutine \<Rightarrow> ('s, 'm, 'e) goroutine" where
  "job_prog tbl t job p =
     (if wait_err t then act (nack_job job) Halt
      else ask (process tbl (jobURL job) (fetched t)) (\<lambda>out. handle_prog job out p))"

primrec worker_prog :: "unicode_tables \<Rightarrow> turn list \<Rightarrow> ('s, 'm, 'e) goroutine" where
  "worker_prog tbl [] = Halt"
| "worker_prog tbl (t # ts) =
     check (\<lambda>c. stopped c \<or> ctx_done t) Halt
       (ask (\<lambda>c. fcall (Lease (frontier c)) c) (\<lambda>r. case r of
            Inl e \<Rightarrow> act (Inc LeaseErrors_update) (worker_prog tbl ts)
          | Inr None \<Rightarrow> worker_prog tbl ts
          | Inr (Some job) \<Rightarrow> job_prog tbl t job (worker_prog tbl ts)))"

primrec workerTest_prog :: "unicode_tables \<Rightarrow> turn list \<Rightarrow> ('s, 'm, 'e) goroutine" where
  "workerTest_prog tbl [] = Halt"
| "workerTest_prog tbl (t # ts) =
     check (\<lambda>c. stopped c \<or> ctx_done t) Halt
       (check (\<lambda>c. count c \<ge> maxTestVideos) Halt
         (ask (\<lambda>c. fcall (Lease (frontier c)) c) (\<lambda>r. case r of
              Inl e \<Rightarrow> workerTest_prog tbl ts
            | Inr None \<Rightarrow> workerTest_prog tbl ts
            | Inr (Some job) \<Rightarrow> job_prog tbl t job (workerTest_prog tbl ts))))"

text \<open>Run: one goroutine for each of the configured workers, here with the turns of its own.\<close>

definition Run_pool :: "unicode_tables \<Rightarrow> Config \<Rightarrow> (nat \<Rightarrow> turn list) \<Rightarrow> ('s, 'm, 'e) goroutine list" where
  "Run_pool tbl cf turns = map (\<lambda>i. worker_prog tbl (turns i)) [0..<nat (Workers cf)]"

definition RunTest_pool :: "unicode_tables \<Rightarrow> Config \<Rightarrow> (nat \<Rightarrow> turn list) \<Rightarrow> ('s, 'm, 'e) goroutine list" where
  "RunTest_pool tbl cf turns = map (\<lambda>i. workerTest_prog tbl (turns i)) [0..<nat (Workers cf)]"

text \<open>
  RunTest waits: before each sleep it reads the count, then the context (stopped, or its deadline passed, which
  a poll says), then asks whether the frontier is idle. It cancels the context on every way out of the loop.
\<close>

primrec poll_prog :: "bool list \<Rightarrow> ('s, 'm, 'e) goroutine" where
  "poll_prog [] = act stopFn Halt"
| "poll_prog (deadline # ds) =
     check (\<lambda>c. count c \<ge> maxTestVideos) (act stopFn Halt)
       (check (\<lambda>c. stopped c \<or> deadline) (act stopFn Halt)
         (ask (\<lambda>c. fcall (\<lambda>_. Idle (frontier c)) c) (\<lambda>r. case r of
              Inl e \<Rightarrow> act stopFn Halt
            | Inr idle \<Rightarrow> if idle then act stopFn Halt else poll_prog ds)))"

subsection \<open>A worker by itself\<close>

lemma alone_record [simp]: "alone (record_prog v p) c = alone p (recordVideo v c)"
  by (simp add: record_prog_def recordVideo_def Let_def)

lemma alone_enqueue [simp]:
  "alone (enqueue_prog ls n k) c = (case enqueue_loop n ls c of (r, c') \<Rightarrow> alone (k r) c')"
  by (induction ls arbitrary: n c) (simp_all split: prod.split sum.split)

lemma alone_handle [simp]: "alone (handle_prog job out p) c = alone p (handleOutcome job out c)"
  by (cases "kind out")
     (auto simp: handle_prog_def handleOutcome_def store_video_def enqueueChildren_def Let_def
       split: prod.split option.split)

lemma alone_job:
  "alone (job_prog tbl t job p) c =
     (if wait_err t then nack_job job c
      else case process tbl (jobURL job) (fetched t) c of (out, c') \<Rightarrow> alone p (handleOutcome job out c'))"
  by (simp add: job_prog_def split: prod.split)

lemma worker_alone: "alone (worker_prog tbl ts) c = worker tbl ts c"
  by (induction ts arbitrary: c) (auto simp: alone_job split: prod.split sum.split option.split)

lemma workerTest_alone: "alone (workerTest_prog tbl ts) c = workerTest tbl ts c"
  by (induction ts arbitrary: c) (auto simp: alone_job split: prod.split sum.split option.split)

lemma poll_alone: "alone (poll_prog ds) c = stopFn (test_wait (map (\<lambda>d. (d, \<lambda>c. c)) ds) c)"
  by (induction ds arbitrary: c) (auto split: prod.split sum.split)


end
