(* ===== verification/Scheduler_Programs.thy ===== *)
theory Scheduler_Programs
  imports Scheduler Goroutines
begin

text \<open>
  The reconcilers of \<^verbatim>\<open>scheduler/scheduler.go\<close> as goroutines, for a shared state that extends the world:
  every call of the frontier, every metric and every check of the context is an action of its own. A
  tick of the listing scheduler has as its input the number of pages after which the run is cut off.
\<close>

subsection \<open>Programs\<close>

primrec tick_prog ::
  "('i \<Rightarrow> ('s, 'a) world_scheme prog \<Rightarrow> ('s, 'a) world_scheme prog) \<Rightarrow> 'i tick list \<Rightarrow> ('s, 'a) world_scheme prog" where
  "tick_prog fn [] = Halt"
| "tick_prog fn (t # ts) =
     (case t of (err, i, stop) \<Rightarrow>
        check (\<lambda>w. stopped w \<or> err) Halt (fn i (if stop then Halt else tick_prog fn ts)))"

primrec drain_prog ::
  "'s Frontier \<Rightarrow> int \<Rightarrow> nat \<Rightarrow> ('s, 'a) world_scheme prog \<Rightarrow> ('s, 'a) world_scheme prog" where
  "drain_prog F limit 0 p = Halt"
| "drain_prog F limit (Suc pages) p =
     ask (fcall (RunListingScheduler F)) (\<lambda>r. case r of
         Inl e \<Rightarrow> act (Inc ReconcileErrors_update) p
       | Inr n \<Rightarrow> act (Add ListingsAdmittedTotal_update n)
           (if n < limit then p else drain_prog F limit pages p))"

definition counted_prog ::
  "(time \<Rightarrow> 's \<Rightarrow> (gerr + int) \<times> 's) \<Rightarrow> ((int \<Rightarrow> int) \<Rightarrow> Metrics \<Rightarrow> Metrics) \<Rightarrow>
   ('s, 'a) world_scheme prog \<Rightarrow> ('s, 'a) world_scheme prog" where
  "counted_prog op upd p =
     ask (fcall op) (\<lambda>r. case r of
         Inl e \<Rightarrow> act (Inc ReconcileErrors_update) p
       | Inr n \<Rightarrow> act (Add upd n) p)"

fun snapshotter_prog :: "rerr option list \<Rightarrow> ('s, 'a) world_scheme prog" where
  "snapshotter_prog [] = Halt"
| "snapshotter_prog (None # ts) = snapshotter_prog ts"
| "snapshotter_prog (Some e # ts) = act (Inc ReconcileErrors_update) (snapshotter_prog ts)"

text \<open>The gauges of the heartbeat, set one after the other.\<close>

definition gauges :: "FrontierStats \<Rightarrow> (Metrics \<Rightarrow> Metrics) list" where
  "gauges st =
     [\<lambda>m. m\<lparr>FrontierReady := stReady st\<rparr>, \<lambda>m. m\<lparr>FrontierProcessing := stProcessing st\<rparr>,
      \<lambda>m. m\<lparr>FrontierDelayed := stDelayed st\<rparr>, \<lambda>m. m\<lparr>ListingsScheduled := stListingsScheduled st\<rparr>,
      \<lambda>m. m\<lparr>ListingsPending := stListingsPending st\<rparr>, \<lambda>m. m\<lparr>FrontierDead := stDead st\<rparr>,
      \<lambda>m. m\<lparr>FrontierStrikes := stStrikes st\<rparr>]"

definition heartbeat_prog :: "'s Frontier \<Rightarrow> ('s, 'a) world_scheme prog \<Rightarrow> ('s, 'a) world_scheme prog" where
  "heartbeat_prog F p =
     ask (fcall (\<lambda>_. Stats F)) (\<lambda>r. case r of
         Inl e \<Rightarrow> act (Inc ReconcileErrors_update) p
       | Inr st \<Rightarrow> foldr (\<lambda>g. act (meter g)) (gauges st)
           (ask (fcall (\<lambda>_. Idle F)) (\<lambda>r. case r of
               Inl e \<Rightarrow> p
             | Inr idle \<Rightarrow> act (meter (\<lambda>m. m\<lparr>FrontierIdle := (if idle then 1 else 0)\<rparr>)) p)))"

text \<open>The monitor keeps \<open>warned\<close> to itself.\<close>

primrec monitor_prog ::
  "(('e + bloomStats) \<times> ('e + bloomStats)) tick list \<Rightarrow> nat \<Rightarrow> ('s, 'a) world_scheme prog" where
  "monitor_prog [] k = Halt"
| "monitor_prog (t # ts) k =
     (case t of (err, infos, stop) \<Rightarrow>
        check (\<lambda>w. stopped w \<or> err) Halt
          (case BloomVerify (fst infos) of
             Some e \<Rightarrow> act stopFn (if stop then Halt else monitor_prog ts k)
           | None \<Rightarrow>
               (case BloomFillRatio_of (snd infos) of
                  Inl e \<Rightarrow> act (Inc ReconcileErrors_update) (if stop then Halt else monitor_prog ts k)
                | Inr ratio \<Rightarrow> act (meter (\<lambda>m. m\<lparr>BloomFillRatio := ratio\<rparr>))
                    (if stop then Halt else monitor_prog ts (fst (warn_loop ratio k []))))))"

text \<open>Run: the seven goroutines, each with its ticks.\<close>

record 'e tick_inputs =
  in_listing :: "nat tick list"
  in_promoter :: "unit tick list"
  in_reaper :: "unit tick list"
  in_sweeper :: "unit tick list"
  in_monitor :: "(('e + bloomStats) \<times> ('e + bloomStats)) tick list"
  in_heartbeat :: "unit tick list"
  in_snapshot :: "rerr option list"

definition listing_prog :: "'s Frontier \<Rightarrow> int \<Rightarrow> nat tick list \<Rightarrow> ('s, 'a) world_scheme prog" where
  "listing_prog F limit = tick_prog (drain_prog F limit)"

definition promoter_prog :: "'s Frontier \<Rightarrow> unit tick list \<Rightarrow> ('s, 'a) world_scheme prog" where
  "promoter_prog F = tick_prog (\<lambda>_. counted_prog (Promote F) PromotedTotal_update)"

definition reaper_prog :: "'s Frontier \<Rightarrow> unit tick list \<Rightarrow> ('s, 'a) world_scheme prog" where
  "reaper_prog F = tick_prog (\<lambda>_. counted_prog (Reap F) ReapedTotal_update)"

definition sweeper_prog :: "'s Frontier \<Rightarrow> unit tick list \<Rightarrow> ('s, 'a) world_scheme prog" where
  "sweeper_prog F = tick_prog (\<lambda>_. counted_prog (\<lambda>_. Sweep F) SweptTotal_update)"

definition scheduler_pool :: "'s Frontier \<Rightarrow> int \<Rightarrow> 'e tick_inputs \<Rightarrow> ('s, 'a) world_scheme prog list" where
  "scheduler_pool F schedulerBatchLimit ins =
     [listing_prog F schedulerBatchLimit (in_listing ins), promoter_prog F (in_promoter ins),
      reaper_prog F (in_reaper ins), sweeper_prog F (in_sweeper ins),
      monitor_prog (in_monitor ins) 0, tick_prog (\<lambda>_. heartbeat_prog F) (in_heartbeat ins),
      snapshotter_prog (in_snapshot ins)]"

text \<open>
  What holds of every goroutine of the pool: anything closed under the actions they consist of. None of
  them lowers a counter of errors, and each failed call is counted next.
\<close>

lemma closed_tick:
  assumes "P Halt" "\<And>b p q. P p \<Longrightarrow> P q \<Longrightarrow> P (check b p q)" "\<And>i p. P p \<Longrightarrow> P (g i p)"
  shows "P (tick_prog g ts)"
  by (induction ts) (use assms in \<open>auto split: prod.split\<close>)

definition spares_errors :: "(Metrics \<Rightarrow> Metrics) \<Rightarrow> bool" where
  "spares_errors f \<longleftrightarrow>
     (\<forall>m. LeaseErrors m \<le> LeaseErrors (f m) \<and> ResolveErrors m \<le> ResolveErrors (f m) \<and> ReconcileErrors m \<le> ReconcileErrors (f m))"

lemma scheduler_pool_closed:
  fixes P :: "('s, 'a) world_scheme prog \<Rightarrow> bool"
  assumes pool: "p \<in> set (scheduler_pool F limit ins)"
    and halt: "P Halt" and metric: "\<And>f p. spares_errors f \<Longrightarrow> P p \<Longrightarrow> P (act (meter f) p)"
    and stop: "\<And>p. P p \<Longrightarrow> P (act stopFn p)"
    and branch: "\<And>b p q. P p \<Longrightarrow> P q \<Longrightarrow> P (check b p q)"
    and call: "\<And>op h p. op \<in> {RunListingScheduler F, Promote F, Reap F, \<lambda>_. Sweep F} \<Longrightarrow> P p \<Longrightarrow> (\<And>n. P (h n)) \<Longrightarrow>
      P (ask (fcall op) (\<lambda>r. case r of Inl e \<Rightarrow> act (Inc ReconcileErrors_update) p | Inr n \<Rightarrow> h n))"
    and stats: "\<And>h. (\<And>r. P (h r)) \<Longrightarrow> P (ask (fcall (\<lambda>_. Stats F)) h)"
    and idle: "\<And>h. (\<And>r. P (h r)) \<Longrightarrow> P (ask (fcall (\<lambda>_. Idle F)) h)"
  shows "P p"
proof -
  note tick = closed_tick [where P = P, OF halt branch]
  have drain: "P (drain_prog F limit n p)" if "P p" for n p
    using that by (induction n) (auto intro!: halt call metric simp: spares_errors_def)
  have counted: "P (counted_prog op upd p)" if "P p" "op \<in> {RunListingScheduler F, Promote F, Reap F, \<lambda>_. Sweep F}"
    and "\<And>n. spares_errors (upd (\<lambda>k. k + n))" for op upd p
    unfolding counted_prog_def by (intro call metric that)
  have gauge: "P (foldr (\<lambda>g. act (meter g)) gs p)" if "P p" "\<forall>g \<in> set gs. spares_errors g" for gs p
    using that by (induction gs) (simp_all add: metric)
  have set_gauges: "P (foldr (\<lambda>g. act (meter g)) (gauges st) p)" if "P p" for st p
    by (rule gauge [OF that]) (simp add: gauges_def spares_errors_def)
  have heartbeat: "P (heartbeat_prog F p)" if "P p" for p
    unfolding heartbeat_prog_def using that by (auto intro!: stats idle metric set_gauges simp: spares_errors_def split: sum.split)
  have monitor: "P (monitor_prog ts n)" for ts :: "(('t + bloomStats) \<times> ('t + bloomStats)) tick list" and n
    by (induction ts arbitrary: n)
       (auto intro!: halt branch stop metric simp: spares_errors_def split: prod.split option.split sum.split)
  have snapshots: "P (snapshotter_prog ts)" for ts
    by (induction ts rule: snapshotter_prog.induct) (auto intro!: halt metric simp: spares_errors_def)
  have "P (promoter_prog F ts)" "P (reaper_prog F ts)" "P (sweeper_prog F ts)" for ts
    unfolding promoter_prog_def reaper_prog_def sweeper_prog_def
    by (rule tick, assumption+, simp add: counted spares_errors_def)+
  with pool show ?thesis
    unfolding scheduler_pool_def listing_prog_def by (auto intro!: tick drain heartbeat monitor snapshots)
qed

subsection \<open>A reconciler by itself\<close>

lemma alone_tick:
  assumes "\<And>i w w' p. f i w = Some w' \<Longrightarrow> alone (g i p) w = alone p w'"
  shows "everyTick f ts w = Some w' \<Longrightarrow> alone (tick_prog g ts) w = w'"
proof (induction ts arbitrary: w)
  case (Cons t ts)
  obtain err i stop where t: "t = (err, i, stop)" by (metis prod.exhaust)
  show ?case
  proof (cases "stopped w \<or> err")
    case False
    with Cons.prems t obtain w1 where w1: "f i w = Some w1"
      and rest: "(if stop then Some w1 else everyTick f ts w1) = Some w'"
      by (auto split: bind_splits)
    with assms [OF w1] Cons.IH [of w1] False t show ?thesis by (auto split: if_splits)
  qed (use Cons.prems t in auto)
qed simp

lemma alone_counted: "alone (counted_prog op upd p) w = alone p (counted_tick op upd w)"
  by (simp add: counted_prog_def counted_tick_def split: prod.split sum.split)

lemma alone_heartbeat: "alone (heartbeat_prog F p) w = alone p (heartbeat F w)"
  by (simp add: heartbeat_prog_def heartbeat_def gauges_def meter_def Let_def comp_def split: prod.split sum.split)

lemma alone_snapshotter: "alone (snapshotter_prog ts) w = runSnapshotter ts w"
  by (induction ts arbitrary: w rule: snapshotter_prog.induct) simp_all

text \<open>A drain that returns is one of the cut-off programs, and all that are cut off later.\<close>

lemma alone_drain:
  assumes "drain F limit w = Some w'"
  shows "\<exists>pages. \<forall>p. alone (drain_prog F limit pages p) w = alone p w'"
proof (rule drain.raw_induct [where P = "\<lambda>F limit w w'. \<exists>pages. \<forall>p. alone (drain_prog F limit pages p) w = alone p w'", OF _ assms], goal_cases)
  case (1 drain' F limit w w')
  obtain r w1 where call: "fcall (RunListingScheduler F) w = (r, w1)" by fastforce
  show ?case
  proof (cases r)
    case (Inl e)
    with 1(2) call show ?thesis by (intro exI [of _ "Suc 0"]) auto
  next
    case (Inr n)
    show ?thesis
    proof (cases "n < limit")
      case True
      with 1(2) call Inr show ?thesis by (intro exI [of _ "Suc 0"]) (auto simp: Let_def)
    next
      case False
      with 1(2) call Inr have "drain' F limit (Add ListingsAdmittedTotal_update n w1) = Some w'"
        by (simp add: Let_def)
      from 1(1) [OF this] obtain pages
        where "\<forall>p. alone (drain_prog F limit pages p) (Add ListingsAdmittedTotal_update n w1) = alone p w'" by blast
      with call Inr False show ?thesis by (intro exI [of _ "Suc pages"]) simp
    qed
  qed
qed

text \<open>Ticks of the listing scheduler with the number of pages each of them takes.\<close>

definition paged :: "nat list \<Rightarrow> unit tick list \<Rightarrow> nat tick list" where
  "paged ns ts = map2 (\<lambda>n (err, _, stop). (err, n, stop)) ns ts"

lemma alone_listing:
  "runListingScheduler F limit ts w = Some w' \<Longrightarrow>
   \<exists>ns. length ns = length ts \<and> alone (listing_prog F limit (paged ns ts)) w = w'"
  unfolding runListingScheduler_def listing_prog_def
proof (induction ts arbitrary: w)
  case (Cons t ts)
  obtain err stop where t: "t = (err, (), stop)" by (metis prod.exhaust unit.exhaust)
  let ?run = "\<lambda>ns. alone (tick_prog (drain_prog F limit) (paged ns (t # ts))) w"
  show ?case
  proof (cases "stopped w \<or> err")
    case True
    with Cons.prems t show ?thesis by (intro exI [of _ "replicate (Suc (length ts)) 0"]) (auto simp: paged_def)
  next
    case False
    with Cons.prems t obtain w1 where w1: "drain F limit w = Some w1"
      and rest: "(if stop then Some w1 else everyTick (\<lambda>_. drain F limit) ts w1) = Some w'"
      by (auto split: bind_splits)
    from alone_drain [OF w1] obtain n where n: "\<forall>p. alone (drain_prog F limit n p) w = alone p w1" by blast
    have "\<exists>ns. length ns = length ts \<and> (if stop then w1 else alone (tick_prog (drain_prog F limit) (paged ns ts)) w1) = w'"
      using rest Cons.IH [of w1] by (auto split: if_splits intro: exI [of _ "replicate (length ts) 0"])
    then obtain ns where "length ns = length ts"
      "(if stop then w1 else alone (tick_prog (drain_prog F limit) (paged ns ts)) w1) = w'" by blast
    with n t False show ?thesis by (intro exI [of _ "n # ns"]) (auto simp: paged_def)
  qed
qed (simp add: paged_def)

lemma warn_loop_out: "fst (warn_loop ratio k out) = fst (warn_loop ratio k out')"
proof (induction ratio k out arbitrary: out' rule: warn_loop.induct)
  case (1 ratio k out)
  let ?next = "\<lambda>out. warn_loop ratio (k + 1) (out @ [bloomFillAlerts ! k])"
  have "fst (?next out) = fst (?next out')" if "k < length bloomFillAlerts \<and> ratio \<ge> bloomFillAlerts ! k"
    using that by (rule "1.IH")
  then show ?case unfolding warn_loop.simps [of ratio k] by simp
qed

lemma truncate_simps [simp]:
  "world.truncate (stopFn w) = stopFn (world.truncate w)" "world.truncate (meter f w) = meter f (world.truncate w)"
  "stopped (world.truncate w) = stopped w"
  by (simp_all add: world.defs stopFn_def meter_def)

lemma monitor_frame [simp]:
  "warned (stopFn m) = warned m" "warned (meter f m) = warned m" "warnings (meter f m) = warnings m"
  by (simp_all add: stopFn_def meter_def)

lemma truncate_monitor [simp]: "world.truncate (m\<lparr>warned := k, warnings := out\<rparr>) = world.truncate m"
  by (simp add: world.defs)

lemma alone_monitor:
  "everyTick (\<lambda>i m. Some (bloomMonitor i m)) ts m = Some m' \<Longrightarrow>
   alone (monitor_prog ts (warned m)) (world.truncate m) = world.truncate m'"
proof (induction ts arbitrary: m)
  case (Cons t ts)
  obtain err i stop where t: "t = (err, i, stop)" by (metis prod.exhaust)
  show ?case
  proof (cases "stopped m \<or> err")
    case False
    let ?m1 = "bloomMonitor i m"
    have rest: "(if stop then ?m1 = m' else everyTick (\<lambda>i m. Some (bloomMonitor i m)) ts ?m1 = Some m')"
      using Cons.prems t False by (cases stop) simp_all
    have "alone (monitor_prog (t # ts) (warned m)) (world.truncate m) =
        alone (if stop then Halt else monitor_prog ts (warned ?m1)) (world.truncate ?m1)"
      using False warn_loop_out [of _ "warned m" "[]" "warnings m"]
      by (auto simp: t bloomMonitor_def Let_def split: option.split sum.split prod.split)
    with rest Cons.IH [of ?m1] show ?thesis by (auto split: if_splits)
  qed (use Cons.prems t in auto)
qed simp

lemma everyTick_total: "\<exists>w'. everyTick (\<lambda>i w. Some (f i w)) ts w = Some w'"
  by (induction ts arbitrary: w) auto

lemma everyTick_alone:
  "(\<And>i p w. alone (g i p) w = alone p (f i w)) \<Longrightarrow>
   everyTick (\<lambda>i w. Some (f i w)) ts w = Some (alone (tick_prog g ts) w)"
  using everyTick_total [of f ts w] alone_tick [of "\<lambda>i w. Some (f i w)" g ts w] by fastforce



end
