(* ===== verification/Crawl_Pools.thy ===== *)
theory Crawl_Pools
  imports Worker_Programs Scheduler_Programs Startup
begin

text \<open>
  Interleavings of the crawler's goroutines, and of whatever else happens to the state they share, are
  runs of the crawl. What a goroutine knows for itself is a set of stored documents: they are never
  removed, so that it may rely on them whatever happens in between.
\<close>

text \<open>
  What happens outside the pool: a stop request (a signal, \<^verbatim>\<open>/stop\<close>), changes of metrics, and calls of
  other processes on the same database and collection that respect the guards of the crawl.
\<close>

inductive outside ::
  "'s Frontier \<Rightarrow> URLClassifier \<Rightarrow> (time \<Rightarrow> bool) \<Rightarrow> ('s \<Rightarrow> 's \<Rightarrow> bool) \<Rightarrow> ('e, 'm) driver \<Rightarrow> ('m \<Rightarrow> string \<Rightarrow> Video option) \<Rightarrow>
   ('s, 'm, 'e) Crawler \<Rightarrow> ('s, 'm, 'e) Crawler \<Rightarrow> bool"
  for F cl clk maint D docs where
  stop: "outside F cl clk maint D docs c (stopFn c)"
| metrics: "outside F cl clk maint D docs c (meter f c)"
| process: "(\<And>C. \<exists>C'. crawl_steps F cl clk maint D docs (C, fstate c, mstate c) (C', s, m)) \<Longrightarrow>
    outside F cl clk maint D docs c (c\<lparr>fstate := s, mstate := m\<rparr>)"

context crawl_contract
begin

definition run_from :: "string set \<times> 's \<times> 'm \<Rightarrow> Config \<Rightarrow> ('s, 'm, 'e) Crawler \<Rightarrow> string set list \<Rightarrow> bool" where
  "run_from start cf c ks \<longleftrightarrow>
     ready F cl clk D c \<and> conf c = cf \<and> (\<forall>k \<in> set ks. k \<subseteq> dom (docs (mstate c))) \<and>
     (\<exists>C. crawl_steps F cl clk maint D docs start (C, fstate c, mstate c) \<and> crawl_inv (C, fstate c, mstate c))"

definition knows :: "Config \<Rightarrow> ('s, 'm, 'e) Crawler \<Rightarrow> string set \<Rightarrow> bool" where
  "knows cf c k \<longleftrightarrow>
     ready F cl clk D c \<and> conf c = cf \<and> k \<subseteq> dom (docs (mstate c)) \<and> (\<exists>C. crawl_inv (C, fstate c, mstate c))"

definition crawls_on :: "('s, 'm, 'e) Crawler \<Rightarrow> string set \<Rightarrow> ('s, 'm, 'e) Crawler \<Rightarrow> string set \<Rightarrow> bool" where
  "crawls_on c k c' k' \<longleftrightarrow>
     (\<forall>C. crawl_inv (C, fstate c, mstate c) \<longrightarrow> (\<exists>C'. sim C c C' c')) \<and> k' \<subseteq> dom (docs (mstate c'))"

lemma run_from_sim:
  assumes "run_from start cf c ks" and "\<And>C. crawl_inv (C, fstate c, mstate c) \<Longrightarrow> \<exists>C'. sim C c C' c'"
  shows "run_from start cf c' ks" and "dom (docs (mstate c)) \<subseteq> dom (docs (mstate c'))"
proof -
  obtain C where C: "crawl_steps F cl clk maint D docs start (C, fstate c, mstate c)" "crawl_inv (C, fstate c, mstate c)"
    using assms(1) by (auto simp: run_from_def)
  from assms(2) [OF C(2)] obtain C' where C': "sim C c C' c'" by blast
  have "crawl_steps F cl clk maint D docs start (C', fstate c', mstate c')"
    using C(1) C' by (auto simp: sim_def)
  moreover have "\<forall>k \<in> set ks. k \<subseteq> dom (docs (mstate c'))"
    using sim_docs [OF C'] assms(1) unfolding run_from_def by blast
  ultimately show "run_from start cf c' ks"
    using sim_inv [OF C' C(2)] sim_ready [OF C'] assms(1) unfolding run_from_def by metis
  show "dom (docs (mstate c)) \<subseteq> dom (docs (mstate c'))" using sim_docs [OF C'] by blast
qed

lemma outside_sim:
  assumes "outside F cl clk maint D docs c c'" and "ready F cl clk D c"
  shows "\<exists>C'. sim C c C' c'"
  using assms(1)
proof cases
  case (process s m)
  then obtain C' where "crawl_steps F cl clk maint D docs (C, fstate c, mstate c) (C', s, m)" by blast
  with process(1) assms(2) show ?thesis by (auto simp: sim_def ready_def)
qed (use sim_refl [OF assms(2)] in auto)

end

sublocale crawl_contract \<subseteq> pool: protocol "run_from start cf" "knows cf" crawls_on "outside F cl clk maint D docs"
  for start cf
proof
  show "run_from start cf c ks \<Longrightarrow> i < length ks \<Longrightarrow> knows cf c (ks ! i)" for c ks i
    by (auto simp: run_from_def knows_def)
next
  fix c ks i c' k'
  assume run: "run_from start cf c ks" and i: "i < length ks" and step: "crawls_on c (ks ! i) c' k'"
  then have "run_from start cf c' ks" by (intro run_from_sim(1) [OF run]) (simp add: crawls_on_def)
  with step set_update_subset_insert [of ks i k'] show "run_from start cf c' (ks[i := k'])"
    unfolding run_from_def crawls_on_def by blast
next
  fix c ks c'
  assume run: "run_from start cf c ks" and "outside F cl clk maint D docs c c'"
  moreover have "ready F cl clk D c" using run by (simp add: run_from_def)
  ultimately show "run_from start cf c' ks" by (intro run_from_sim(1) [OF run] outside_sim)
qed

subsection \<open>The goroutines follow the protocol\<close>

context crawl_contract
begin

abbreviation crawling :: "Config \<Rightarrow> string set \<Rightarrow> ('s, 'm, 'e) goroutine \<Rightarrow> bool" where
  "crawling cf \<equiv> follows (knows cf) crawls_on"

lemma knows_ready: "knows cf c k \<Longrightarrow> ready F cl clk D c"
  by (simp add: knows_def)

lemma knows_parts: "knows cf c k \<Longrightarrow> frontier c = F" "knows cf c k \<Longrightarrow> mongo c = D" "knows cf c k \<Longrightarrow> conf c = cf"
  by (simp_all add: knows_def ready_def)

lemma idle_sim: "knows cf c k \<Longrightarrow> sim C c C c"
  by (rule sim_refl [OF knows_ready])

lemma crawls_on_sim:
  assumes "knows cf c k" and "\<And>C. crawl_inv (C, fstate c, mstate c) \<Longrightarrow> \<exists>C'. sim C c C' c'"
  shows "crawls_on c k c' k"
proof -
  obtain C where "crawl_inv (C, fstate c, mstate c)" using assms(1) by (auto simp: knows_def)
  then obtain C' where "sim C c C' c'" using assms(2) by blast
  with sim_docs assms show ?thesis unfolding crawls_on_def knows_def by blast
qed

lemma crawling_act:
  assumes "\<And>c C. knows cf c k \<Longrightarrow> crawl_inv (C, fstate c, mstate c) \<Longrightarrow> \<exists>C'. sim C c C' (f c)"
    and "crawling cf k p"
  shows "crawling cf k (act f p)"
  by (rule follows_act) (use crawls_on_sim assms in blast)

lemma crawling_ask:
  assumes "\<And>c C r c'. knows cf c k \<Longrightarrow> crawl_inv (C, fstate c, mstate c) \<Longrightarrow> op c = (r, c') \<Longrightarrow>
      (\<exists>C'. sim C c C' c') \<and> crawling cf k (h r)"
  shows "crawling cf k (ask op h)"
proof (rule follows_ask)
  fix c r c'
  assume k: "knows cf c k" and op: "op c = (r, c')"
  then obtain C where "crawl_inv (C, fstate c, mstate c)" by (auto simp: knows_def)
  with assms [OF k _ op] crawls_on_sim [OF k] show "\<exists>k'. crawls_on c k c' k' \<and> crawling cf k' (h r)" by blast
qed

lemma crawling_check: "crawling cf k p \<Longrightarrow> crawling cf k q \<Longrightarrow> crawling cf k (check b p q)"
  by (rule follows_check) (use crawls_on_sim idle_sim in blast)+

lemma crawling_meter: "crawling cf k p \<Longrightarrow> crawling cf k (act (meter f) p)"
  by (rule crawling_act) (simp_all, blast intro: idle_sim)

lemma crawling_stop: "crawling cf k p \<Longrightarrow> crawling cf k (act stopFn p)"
  by (rule crawling_act) (simp_all, blast intro: idle_sim)

text \<open>A call of the frontier that leaves what is owed as it is, and a resolution that does.\<close>

lemma crawling_call:
  assumes "\<And>A s t r s'. clk t \<Longrightarrow> op t s = (r, s') \<Longrightarrow> frontier_step F cl clk (A, s) (A, s')"
    and "\<And>r. crawling cf k (h r)"
  shows "crawling cf k (ask (fcall op) h)"
proof (rule crawling_ask, intro conjI exI)
  fix c C r c'
  assume k: "knows cf c k" and call: "fcall op c = (r, c')"
  have "clk (shd (clock c))" using knows_ready [OF k] shd_sset [of "clock c"] by (simp add: ready_def)
  from assms(1) [OF this fcall_result [OF call]] show "sim C c C c'" by (rule sim_call_same [OF knows_ready [OF k] call])
qed (rule assms(2))

lemma crawling_read:
  assumes "\<And>c t s. frontier c = F \<Longrightarrow> snd (op c t s) = s" and "\<And>r. crawling cf k (h r)"
  shows "crawling cf k (ask (\<lambda>c. fcall (op c) c) h)"
proof (rule crawling_ask, intro conjI exI)
  fix c C r c'
  assume k: "knows cf c k" and call: "fcall (op c) c = (r, c')"
  have "fstate c' = fstate c" using fcall_result [OF call] assms(1) [OF knows_parts(1) [OF k]] by (metis snd_conv)
  then show "sim C c C c'"
    using ready_fcall [OF call knows_ready [OF k]] fcall_more [OF call] by (simp add: sim_def)
qed (rule assms(2))

lemma crawling_peek: "(\<And>t s. snd (op t s) = s) \<Longrightarrow> (\<And>r. crawling cf k (h r)) \<Longrightarrow> crawling cf k (ask (fcall op) h)"
  by (rule crawling_read)

lemma crawling_idle: "(\<And>r. crawling cf k (h r)) \<Longrightarrow> crawling cf k (ask (\<lambda>c. fcall (\<lambda>_. Idle (frontier c)) c) h)"
  by (rule crawling_read) (simp_all add: Idle_same)

lemma crawling_resolve:
  assumes "\<And>A s t r s'. clk t \<Longrightarrow> until_ok (jobClass job) (untilFor (jobClass job) (quarantine_of cf) t) \<Longrightarrow>
      op F cf t s = (r, s') \<Longrightarrow> frontier_step F cl clk (A, s) (A, s')"
    and "crawling cf k p"
  shows "crawling cf k (act (\<lambda>c. resolve (op (frontier c) (conf c)) c) p)"
proof (rule crawling_act [OF _ assms(2)], intro exI)
  fix c C
  assume k: "knows cf c k"
  have "clk (shd (clock c))" "until_ok (jobClass job) (untilFor (jobClass job) (quarantine_of cf) (shd (clock c)))"
    using knows_ready [OF k] knows_parts(3) [OF k] shd_sset [of "clock c"] by (auto simp: ready_def)
  then have "sim C c C (resolve (op F cf) c)"
    by (intro resolve_sim [OF knows_ready [OF k]]) (rule assms(1))
  then show "sim C c C (resolve (op (frontier c) (conf c)) c)" by (simp add: knows_parts [OF k])
qed

lemma crawling_nack: "job_ok cl job \<Longrightarrow> crawling cf k p \<Longrightarrow> crawling cf k (act (nack_job job) p)"
  by (rule crawling_resolve [where op = "\<lambda>F _ _. Nack F job"]) (auto intro: frontier_step.nack)

lemma crawling_fatal: "crawling cf k p \<Longrightarrow> crawling cf k (act (maybeFatalAdmission e) p)"
  by (rule crawling_act) (simp_all add: maybeFatalAdmission_def, blast intro: idle_sim)

lemma crawling_enqueue:
  "(\<And>r. crawling cf k (h r)) \<Longrightarrow> crawling cf k (enqueue_prog ls n h)"
proof (induction ls arbitrary: n)
  case (Cons raw ls)
  show ?case unfolding enqueue_prog.simps
  proof (rule crawling_ask)
    fix c C r c'
    assume "knows cf c k" "admitURL raw c = (r, c')"
    with admit_sim [OF knows_ready] Cons show "(\<exists>C'. sim C c C' c') \<and> crawling cf k
        (case r of Inl e \<Rightarrow> h (n, Some e) | Inr res \<Rightarrow> enqueue_prog ls (if res = New then n + 1 else n) h)"
      by (auto split: sum.split)
  qed
qed simp

lemma crawling_mono: "crawling cf k p \<Longrightarrow> k \<subseteq> k' \<Longrightarrow> crawling cf k' p"
proof (induction p)
  case (Atomic f g)
  have weaker: "knows cf c k" if "knows cf c k'" for c using that Atomic.prems(2) by (auto simp: knows_def)
  have "\<exists>k1. crawls_on c k' (f c) k1 \<and> crawling cf k1 (g c)" if "knows cf c k'" for c
    using follows_AtomicE [OF Atomic.prems(1)] weaker [OF that] by (metis crawls_on_def)
  then show ?case by (rule follows_to.atomic)
qed (rule follows_halt)

lemma crawling_store:
  assumes "crawling cf (insert (vURL v) k) (h None)" and "\<And>e. crawling cf k (h (Some e))"
  shows "crawling cf k (ask (store_video v) h)"
proof (rule follows_ask)
  fix c err c'
  assume k: "knows cf c k" and "store_video v c = (err, c')"
  then obtain m' where up: "Upsert D v (mstate c) = (err, m')" and c': "c' = c\<lparr>mstate := m'\<rparr>"
    using knows_parts(2) [OF k] by (auto simp: store_video_def split: prod.splits)
  have "crawl_step F cl clk maint D docs (C, fstate c, mstate c) (C, fstate c', mstate c')" for C
    using crawl_step.store [OF up] c' by simp
  then have sim: "sim C c C c'" for C
    using knows_ready [OF k] c' by (auto simp: sim_def ready_def)
  note keeps = crawls_on_sim [OF k] and grows = upsert_docs [OF up]
  show "\<exists>k'. crawls_on c k c' k' \<and> crawling cf k' (h err)"
  proof (cases err)
    case (Some e)
    with keeps sim assms(2) show ?thesis by blast
  next
    case None
    have "crawls_on c k c' k" using keeps sim by blast
    then have "crawls_on c k c' (insert (vURL v) k)" using grows None c' by (auto simp: crawls_on_def)
    with None assms(1) show ?thesis by blast
  qed
qed

lemma crawling_record: "crawling cf k p \<Longrightarrow> crawling cf k (record_prog v p)"
proof -
  have quiet: "crawling cf k (act f q)" if "crawling cf k q"
    "\<And>c. fstate (f c) = fstate c \<and> mstate (f c) = mstate c \<and> conf (f c) = conf c \<and> frontier (f c) = frontier c \<and>
      mongo (f c) = mongo c \<and> clock (f c) = clock c" for f q
    by (rule crawling_act [OF _ that(1)]) (use that(2) knows_ready in \<open>fastforce simp: sim_def ready_def\<close>)
  show "crawling cf k p \<Longrightarrow> crawling cf k (record_prog v p)"
    unfolding record_prog_def by (auto intro!: quiet)
qed

lemma crawling_ack:
  assumes "job_ok cl job" "jobClass job = ClassVideo" "jobURL job \<in> k" "crawling cf k p"
  shows "crawling cf k (act (\<lambda>c. resolve (\<lambda>_. Ack (frontier c) job) c) p)"
proof (rule crawling_act [OF _ assms(4)], intro exI)
  fix c C
  assume k: "knows cf c k"
  then have "jobURL job \<in> dom (docs (mstate c))" using assms(3) by (auto simp: knows_def)
  from ack_sim [OF knows_ready [OF k] assms(1,2) this]
  show "sim C c C (resolve (\<lambda>_. Ack (frontier c) job) c)" by (simp add: knows_parts [OF k])
qed

lemma crawling_handle:
  assumes "job_ok cl job" "outcome_fits cf (jobURL job) out" "crawling cf k p"
    and cl: "\<And>u. cl u = ClassVideo \<longleftrightarrow> Contains u (VideoPattern cf)"
  shows "crawling cf k (handle_prog job out p)"
proof -
  have nack: "crawling cf k' (act (nack_job job) p)"
    "crawling cf k' (act (nack_job job) (act (maybeFatalAdmission e) p))" if "k \<subseteq> k'" for k' e
    using crawling_mono [OF assms(3) that] by (auto intro: crawling_nack crawling_fatal assms(1))
  have class_of: "jobClass job = cl (jobURL job)" using assms(1) by (simp add: job_ok_def)
  show ?thesis
  proof (cases "kind out")
    case pageVideo
    then have url: "vURL (video out) = jobURL job" and vid: "jobClass job = ClassVideo"
      using assms(2) cl class_of by (simp_all add: outcome_fits_def)
    let ?k = "insert (vURL (video out)) k"
    have "crawling cf ?k (act (\<lambda>c. resolve (\<lambda>_. Ack (frontier c) job) c) p)"
      using crawling_mono [OF assms(3), of ?k] url by (intro crawling_ack [OF assms(1) vid]) auto
    with nack(2) [OF subset_insertI] nack(1) [OF order_refl] pageVideo show ?thesis
      by (auto simp: handle_prog_def intro!: crawling_store crawling_record crawling_enqueue split: option.split)
  next
    case pageListing
    then have "jobClass job \<noteq> ClassVideo" using assms(2) cl class_of by (simp add: outcome_fits_def)
    then have "crawling cf k (act (\<lambda>c. resolve (\<lambda>now. CompleteListing (frontier c) now job n) c) p)" for n
      by (intro crawling_resolve [where op = "\<lambda>F _ now. CompleteListing F now job n"] assms(3))
         (rule frontier_step.complete [where clock = clk, OF assms(1)])
    with nack [of k] pageListing show ?thesis
      by (auto simp: handle_prog_def intro!: crawling_enqueue split: option.split)
  next
    case pageNotFound
    then have "reason_ok (reason out)" using assms(2) by (auto simp: outcome_fits_def reason_ok_def)
    then have "crawling cf k (act (\<lambda>c. resolve (\<lambda>now. Terminal (frontier c) job (reason out)
        (untilFor (jobClass job) (quarantine_of (conf c)) now)) c) p)"
      by (intro crawling_resolve [where job = job and
            op = "\<lambda>F cf now. Terminal F job (reason out) (untilFor (jobClass job) (quarantine_of cf) now)"] assms(3))
         (rule frontier_step.terminal [where clock = clk, OF assms(1)])
    with pageNotFound show ?thesis by (simp add: handle_prog_def quarantine_of_def Let_def)
  next
    case pageCancelled
    with nack [of k] show ?thesis by (simp add: handle_prog_def)
  next
    case pageRetryable
    have "crawling cf k (act (\<lambda>c. resolve (\<lambda>now. Fail (frontier c) now job (failClass out)) c) p)"
      by (intro crawling_resolve [where op = "\<lambda>F _ now. Fail F now job (failClass out)"] assms(3))
         (rule frontier_step.fail [where clock = clk, OF assms(1)])
    with pageRetryable show ?thesis by (simp add: handle_prog_def)
  next
    case pageUnknown
    have "crawling cf k (act (\<lambda>c. resolve (\<lambda>now. Fail (frontier c) now job FailStrikeable) c) p)"
      by (intro crawling_resolve [where op = "\<lambda>F _ now. Fail F now job FailStrikeable"] assms(3))
         (rule frontier_step.fail [where clock = clk, OF assms(1)])
    with pageUnknown show ?thesis by (simp add: handle_prog_def)
  qed
qed

lemma crawling_turn:
  assumes cl: "\<And>u. cl u = ClassVideo \<longleftrightarrow> Contains u (VideoPattern cf)"
    and "crawling cf k p"
  shows "crawling cf k (ask (\<lambda>c. fcall (Lease (frontier c)) c) (\<lambda>r. case r of
      Inl e \<Rightarrow> act (Inc LeaseErrors_update) p
    | Inr None \<Rightarrow> p
    | Inr (Some job) \<Rightarrow> job_prog tbl t job p))" (is "crawling cf k (ask ?lease ?rest)")
    and "crawling cf k (ask (\<lambda>c. fcall (Lease (frontier c)) c) (\<lambda>r. case r of
      Inl e \<Rightarrow> p
    | Inr None \<Rightarrow> p
    | Inr (Some job) \<Rightarrow> job_prog tbl t job p))"
proof -
  have job: "crawling cf k (job_prog tbl t job p)" if ok: "job_ok cl job" for job
  proof -
    have "crawling cf k (ask (process tbl (jobURL job) (fetched t)) (\<lambda>out. handle_prog job out p))"
    proof (rule crawling_ask, intro conjI exI)
      fix c C out c'
      assume k: "knows cf c k" and run: "process tbl (jobURL job) (fetched t) c = (out, c')"
      from process_frame [OF run] idle_sim [OF k] show "sim C c C c'" by auto
      show "crawling cf k (handle_prog job out p)"
        using process_fits [OF run] knows_parts(3) [OF k] by (intro crawling_handle [OF ok _ assms(2) cl]) simp
    qed
    then show ?thesis using crawling_nack [OF ok follows_halt] by (simp add: job_prog_def)
  qed
  have lease: "(\<exists>C'. sim C c C' c') \<and> (\<forall>job. r = Inr (Some job) \<longrightarrow> job_ok cl job)"
    if "knows cf c k" "crawl_inv (C, fstate c, mstate c)" "fcall (Lease (frontier c)) c = (r, c')" for c C r c'
    using lease_sim [OF knows_ready [OF that(1)] that(2,3)] by blast
  show "crawling cf k (ask ?lease ?rest)"
    by (rule crawling_ask) (use lease job crawling_meter assms(2) in \<open>auto split: sum.split option.split\<close>)
  show "crawling cf k (ask ?lease (\<lambda>r. case r of Inl e \<Rightarrow> p | Inr None \<Rightarrow> p | Inr (Some job) \<Rightarrow> job_prog tbl t job p))"
    by (rule crawling_ask) (use lease job assms(2) in \<open>auto split: sum.split option.split\<close>)
qed

lemma crawling_worker:
  assumes "\<And>u. cl u = ClassVideo \<longleftrightarrow> Contains u (VideoPattern cf)"
  shows "crawling cf k (worker_prog tbl ts)" and "crawling cf k (workerTest_prog tbl ts)"
  by (induction ts) (auto intro!: follows_halt crawling_check crawling_turn assms)

lemma crawling_poll: "crawling cf k (poll_prog ds)"
  by (induction ds) (auto intro!: follows_halt crawling_stop crawling_check crawling_idle split: sum.split)

lemma crawling_scheduler: "p \<in> set (scheduler_pool F limit ins) \<Longrightarrow> crawling cf k p"
proof (erule scheduler_pool_closed)
  fix op and h :: "int \<Rightarrow> ('s, 'm, 'e) goroutine" and p
  assume op: "op \<in> {RunListingScheduler F, Promote F, Reap F, \<lambda>_. Sweep F}" and p: "crawling cf k p"
    and h: "\<And>n. crawling cf k (h n)"
  show "crawling cf k (ask (fcall op) (\<lambda>r. case r of Inl e \<Rightarrow> act (Inc ReconcileErrors_update) p | Inr n \<Rightarrow> h n))"
  proof (rule crawling_call)
    show "crawling cf k (case r of Inl e \<Rightarrow> act (Inc ReconcileErrors_update) p | Inr n \<Rightarrow> h n)" for r
      using p h by (auto intro: crawling_meter split: sum.split)
    show "op t s = (r, s') \<Longrightarrow> frontier_step F cl clk (A, s) (A, s')" for A s t r s'
      using op by (auto intro: frontier_step.schedule frontier_step.promote frontier_step.reap frontier_step.sweep)
  qed
qed (auto intro: follows_halt crawling_meter crawling_stop crawling_check crawling_peek Stats_same Idle_same)

lemma pool_runs:
  assumes "ready F cl clk D c" and "crawl_inv (C, fstate c, mstate c)"
    and "\<And>p. p \<in> set ps \<Longrightarrow> crawling (conf c) {} p"
    and "pool_steps (outside F cl clk maint D docs) (ps, c) (ps', c')"
  shows "\<exists>C'. crawl_steps F cl clk maint D docs (C, fstate c, mstate c) (C', fstate c', mstate c')"
proof -
  have "run_from (C, fstate c, mstate c) (conf c) c (replicate (length ps) {})"
    using assms(1,2) by (auto simp: run_from_def)
  moreover have "list_all2 (crawling (conf c)) (replicate (length ps) {}) ps"
    using assms(3) by (simp add: list_all2_conv_all_nth)
  ultimately obtain ks where "run_from (C, fstate c, mstate c) (conf c) c' ks"
    using pool.steps_keep [OF assms(4)] by blast
  then show ?thesis by (auto simp: run_from_def)
qed

lemma alone_runs:
  assumes "ready F cl clk D c" and "crawl_inv (C, fstate c, mstate c)" and "crawling (conf c) {} p"
  shows "\<exists>C'. crawl_steps F cl clk maint D docs (C, fstate c, mstate c) (C', fstate (alone p c), mstate (alone p c))"
  by (rule pool_runs [OF assms(1,2) _ alone_steps]) (use assms(3) in simp)

end

end
