(* ===== verification/Crawl_Interleavings.thy ===== *)
theory Crawl_Interleavings
  imports Crawl_Safety Crawl_Pools
begin

text \<open>
  The crawler's goroutines together: the pools that main and RunTest start, in any interleaving, refine
  the crawl; and no video is lost from one run of the program to the next.
\<close>

text \<open>What main starts in production: the reconcilers of scheduler.Run, then the workers of Crawler.Run.\<close>

definition production_pool ::
  "unicode_tables \<Rightarrow> 't tick_inputs \<Rightarrow> (nat \<Rightarrow> turn list) \<Rightarrow> ('s, 'm, 'e) Crawler \<Rightarrow> ('s, 'm, 'e) goroutine list" where
  "production_pool tbl ins turns c =
     scheduler_pool (frontier c) (SchedulerBatchLimitCfg (conf c)) ins @ Run_pool tbl (conf c) turns"

text \<open>RunTest starts the same reconcilers, and the test workers, and then waits for them itself.\<close>

definition test_pool ::
  "unicode_tables \<Rightarrow> 't tick_inputs \<Rightarrow> (nat \<Rightarrow> turn list) \<Rightarrow> bool list \<Rightarrow> ('s, 'm, 'e) Crawler \<Rightarrow>
   ('s, 'm, 'e) goroutine list" where
  "test_pool tbl ins turns polls c =
     scheduler_pool (frontier c) (SchedulerBatchLimitCfg (conf c)) ins @ RunTest_pool tbl (conf c) turns @ [poll_prog polls]"

context crawl_contract
begin

lemma crawling_pools:
  assumes "ready F cl clk D c" and "p \<in> set (production_pool tbl ins turns c) \<union> set (test_pool tbl ins turns polls c)"
  shows "crawling (conf c) k p"
proof -
  have cl: "cl u = ClassVideo \<longleftrightarrow> Contains u (VideoPattern (conf c))" and F: "frontier c = F" for u
    using assms(1) by (simp_all add: ready_def)
  from assms(2) show ?thesis
    by (auto simp: production_pool_def test_pool_def Run_pool_def RunTest_pool_def F
        intro: crawling_scheduler crawling_worker [OF cl] crawling_poll)
qed

end

abbreviation around ::
  "server \<Rightarrow> string list \<Rightarrow> ('e, 'm) driver \<Rightarrow> ('m \<Rightarrow> string \<Rightarrow> Video option) \<Rightarrow> (db, 'm, 'e) Crawler \<Rightarrow>
   (db, 'm, 'e) Crawler \<Rightarrow> (db, 'm, 'e) Crawler \<Rightarrow> bool" where
  "around ev seeds D docs k \<equiv>
     outside (NewFrontier ev (frontierConfig (conf k)) (Some (NewURLClassifier (conf k) seeds)))
       (NewURLClassifier (conf k) seeds) (time_ok (frontierConfig (conf k))) (bloom_maintenance ev) D docs"

text \<open>
  C2: the goroutines refine the crawl. However the actions of all workers and reconcilers that main, or
  a test run, has started interleave with each other, with stop requests and with other processes on
  the same database: whatever pages are served and whatever fails, each call respects the guards of the
  crawl, a video in particular is acknowledged only once the store has confirmed it.
\<close>

theorem goroutines_refine:
  assumes "redis_server ev" and "mongo_store D docs" and "assembled ev seeds D k"
    and "crawls ev (frontierConfig (conf k)) (NewURLClassifier (conf k) seeds) D docs ({}, empty_db, m0) (C, fstate k, mstate k)"
    and "ps \<in> {production_pool tbl ins turns k, test_pool tbl ins turns polls k}"
    and "pool_steps (around ev seeds D docs k) (ps, k) (ps', k')"
  shows "\<exists>C'. C \<subseteq> C' \<and> crawls ev (frontierConfig (conf k)) (NewURLClassifier (conf k) seeds) D docs
    (C, fstate k, mstate k) (C', fstate k', mstate k')"
proof -
  note ct = redis_contract [OF assms(1,2), of "frontierConfig (conf k)" "NewURLClassifier (conf k) seeds"]
  note ready = assembled_ready [OF assms(3)]
  have inv: "crawl_contract.crawl_inv (frontier_inv (\<lambda>u. NewURLClassifier (conf k) seeds u = ClassVideo)) docs (C, fstate k, mstate k)"
    using crawls_inv [OF assms(1,2,4)] by (simp add: crawl_contract.crawl_inv_def [OF ct])
  have "p \<in> set (production_pool tbl ins turns k) \<union> set (test_pool tbl ins turns polls k)" if "p \<in> set ps" for p
    using assms(5) that by auto
  then obtain C' where run: "crawls ev (frontierConfig (conf k)) (NewURLClassifier (conf k) seeds) D docs
      (C, fstate k, mstate k) (C', fstate k', mstate k')"
    using crawl_contract.pool_runs [OF ct ready inv _ assms(6)] crawl_contract.crawling_pools [OF ct ready] by blast
  with crawl_contract.crawl_steps_grow [OF ct run] show ?thesis by blast
qed

text \<open>In particular, one worker by itself.\<close>

lemma worker_refines:
  assumes "redis_server ev" and "mongo_store D docs" and "assembled ev seeds D k"
    and "crawls ev (frontierConfig (conf k)) (NewURLClassifier (conf k) seeds) D docs ({}, empty_db, m0) (C, fstate k, mstate k)"
  shows "\<exists>C'. C \<subseteq> C' \<and> crawls ev (frontierConfig (conf k)) (NewURLClassifier (conf k) seeds) D docs
    (C, fstate k, mstate k) (C', fstate (worker tbl ts k), mstate (worker tbl ts k))"
proof -
  note ct = redis_contract [OF assms(1,2), of "frontierConfig (conf k)" "NewURLClassifier (conf k) seeds"]
  have inv: "crawl_contract.crawl_inv (frontier_inv (\<lambda>u. NewURLClassifier (conf k) seeds u = ClassVideo)) docs (C, fstate k, mstate k)"
    using crawls_inv [OF assms(1,2,4)] by (simp add: crawl_contract.crawl_inv_def [OF ct])
  from crawl_contract.alone_runs [OF ct assembled_ready [OF assms(3)] inv crawl_contract.crawling_worker(1) [OF ct video_class]]
  obtain C' where run: "crawls ev (frontierConfig (conf k)) (NewURLClassifier (conf k) seeds) D docs
      (C, fstate k, mstate k) (C', fstate (worker tbl ts k), mstate (worker tbl ts k))"
    unfolding worker_alone by blast
  with crawl_contract.crawl_steps_grow [OF ct run] show ?thesis by blast
qed

subsection \<open>From one run of the program to the next\<close>

text \<open>
  C1: nothing is lost across restarts. Whatever earlier runs did, wherever they were stopped: a new
  process that gets through its startup on their database and collection, with its goroutines interleaved
  in any way, keeps every video admitted before and every one it admits stored, at work or dead for good.
\<close>

theorem restart_loses_nothing:
  assumes "redis_server ev" and "mongo_store D docs"
    and "\<forall>t \<in> sset (clock w). time_ok (frontierConfig (Load env)) t"
    and "crawls ev (frontierConfig (Load env)) (NewURLClassifier (Load env) (readSeedURLs seeds base_url)) D docs
      ({}, empty_db, m0) (C, fstate w, m)"
    and "production_start ev reserve info seeds fresh (main_crawler ev (Load env) seeds D m w) = (None, k)"
    and "pool_steps (around ev (readSeedURLs seeds base_url) D docs k) (production_pool tbl ins turns k, k) (ps', k')"
  shows "\<exists>C'. C \<subseteq> C' \<and>
    crawls ev (frontierConfig (Load env)) (NewURLClassifier (Load env) (readSeedURLs seeds base_url)) D docs
      (C, fstate w, m) (C', fstate k', mstate k') \<and>
    (\<forall>u \<in> C'. docs (mstate k') u \<noteq> None \<or> has_job (fstate k') u \<or> dead_forever (dhashes (fstate k') keyDead) u) \<and>
    (\<forall>u. zscore (dzsets (fstate k') keyListingNext) u = Some PendingScore \<longrightarrow> has_job (fstate k') u)"
proof -
  let ?cl = "NewURLClassifier (Load env) (readSeedURLs seeds base_url)" and ?c = "frontierConfig (Load env)"
  let ?k0 = "main_crawler ev (Load env) seeds D m w"
  note ct = redis_contract [OF assms(1,2), of ?c ?cl]
  have k0: "conf ?k0 = Load env" "fstate ?k0 = fstate w" "mstate ?k0 = m"
    by (simp_all add: main_crawler_def New_crawler_def Let_def)
  have "\<not> Contains base_url watch" using Contains_base [of "''''"] by (simp add: Contains_def watch_def)
  then have base: "?cl (BaseUrl (conf ?k0)) \<noteq> ClassVideo" by (simp add: k0 video_class)
  have "ready (NewFrontier ev ?c (Some ?cl)) ?cl (time_ok ?c) D ?k0"
    using assembled_ready [OF main_crawler_assembled [OF assms(3)], of ev seeds D m] by (simp add: k0)
  from start_runs [OF assms(1,2) k0(1) this base assms(5)] obtain C1
    where start: "crawl_contract.sim (NewFrontier ev ?c (Some ?cl)) ?cl (time_ok ?c) D docs (bloom_maintenance ev) C ?k0 C1 k" by blast
  have ready: "ready (NewFrontier ev ?c (Some ?cl)) ?cl (time_ok ?c) D k" and conf: "conf k = Load env"
    using crawl_contract.sim_ready [OF ct start] by (simp_all add: k0)
  have first: "crawls ev ?c ?cl D docs (C, fstate w, m) (C1, fstate k, mstate k)"
    using start crawl_contract.sim_def [OF ct] by (simp add: k0)
  then have "crawls ev ?c ?cl D docs ({}, empty_db, m0) (C1, fstate k, mstate k)"
    using assms(4) by simp
  from crawls_inv [OF assms(1,2) this]
  have inv: "crawl_contract.crawl_inv (frontier_inv (\<lambda>u. ?cl u = ClassVideo)) docs (C1, fstate k, mstate k)"
    by (simp add: crawl_contract.crawl_inv_def [OF ct])
  have "pool_steps (outside (NewFrontier ev ?c (Some ?cl)) ?cl (time_ok ?c) (bloom_maintenance ev) D docs)
      (production_pool tbl ins turns k, k) (ps', k')" using assms(6) by (simp add: conf)
  from crawl_contract.pool_runs [OF ct ready inv _ this] crawl_contract.crawling_pools [OF ct ready]
  obtain C' where "crawls ev ?c ?cl D docs (C1, fstate k, mstate k) (C', fstate k', mstate k')" by blast
  with first have run: "crawls ev ?c ?cl D docs (C, fstate w, m) (C', fstate k', mstate k')" by simp
  moreover have "C \<subseteq> C'" using crawl_contract.crawl_steps_grow [OF ct run] by blast
  moreover have "crawls ev ?c ?cl D docs ({}, empty_db, m0) (C', fstate k', mstate k')" using assms(4) run by simp
  from crawls_inv [OF assms(1,2) this] have "(\<forall>u \<in> C'. docs (mstate k') u \<noteq> None \<or> has_job (fstate k') u \<or>
      dead_forever (dhashes (fstate k') keyDead) u) \<and>
    (\<forall>u. zscore (dzsets (fstate k') keyListingNext) u = Some PendingScore \<longrightarrow> has_job (fstate k') u)"
    by (auto simp: frontier_inv_def covered_def owed_def has_job_def)
  ultimately show ?thesis by blast
qed

subsection \<open>Instances\<close>

definition sample_ticks :: "rerr tick_inputs" where
  "sample_ticks =
     \<lparr>in_listing = [(False, 2, False)], in_promoter = [(False, (), False)], in_reaper = [(False, (), False)],
      in_sweeper = [(False, (), False)], in_monitor = [(False, (Inr (sample_info 1), Inr (sample_info 1)), False)],
      in_heartbeat = [(False, (), False)], in_snapshot = [Some (NetworkError ''EOF'')]\<rparr>"

text \<open>Two workers and the sweeper in turns, ten rounds of them.\<close>

abbreviation sample_order :: "nat list" where
  "sample_order \<equiv> concat (replicate 10 [7, 8, 3])"

theorem goroutines_refine_witness:
  "\<exists>ps' k' C'. schedule sample_order
       (production_pool sample_tables sample_ticks (\<lambda>_. [sample_turn]) (sample_crawler sample_db), sample_crawler sample_db) = (ps', k') \<and>
     {sample_url} \<subseteq> C' \<and> crawls ref_eval sample_config sample_class sample_driver map_of ({sample_url}, sample_db, [])
       (C', fstate k', mstate k')"
proof -
  let ?ps = "production_pool sample_tables sample_ticks (\<lambda>_. [sample_turn]) (sample_crawler sample_db)"
  obtain ps' k' where run: "schedule sample_order (?ps, sample_crawler sample_db) = (ps', k')" by fastforce
  then have steps: "pool_steps (around ref_eval [base_url] sample_driver map_of (sample_crawler sample_db))
      (?ps, sample_crawler sample_db) (ps', k')"
    by (metis schedule_steps)
  have server: "redis_server ref_eval" "mongo_store sample_driver map_of" by unfold_locales
  have "?ps \<in> {?ps, test_pool sample_tables sample_ticks (\<lambda>_. [sample_turn]) [] (sample_crawler sample_db)}" by simp
  from goroutines_refine [OF server sample_assembled [of sample_db] _ this steps, unfolded sample_state(1-3), OF sample_run]
  obtain C' where "{sample_url} \<subseteq> C'" "crawls ref_eval sample_config sample_class sample_driver map_of
    ({sample_url}, sample_db, []) (C', fstate k', mstate k')" by blast
  with run show ?thesis by (intro exI conjI)
qed

lemma sample_start:
  "\<exists>k. production_start ref_eval None (Inr (sample_info 0)) None False
     (main_crawler ref_eval (Load (\<lambda>_. '''')) None sample_driver [] (sample_world sample_db)) = (None, k)"
proof -
  have "impliedFPR (sample_info 0) \<le> 2 / 100000"
    using fpr_24 by (simp add: impliedFPR_def sample_info_def wrap64_id)
  then have "BloomVerify (Inr (sample_info 0) :: unit + bloomStats) = None"
    by (simp add: BloomVerify_def bloomErrorRate_def sample_info_def bloomCapacity_def)
  moreover have "reconcileBloomFromMongo ref_eval sample_driver [] s = (None, 0, s)" for s
    by (simp add: reconcileBloomFromMongo_def EachVideoURL_def ref_driver_def)
  moreover have "fst (fcall (\<lambda>_. SeedListing (NewFrontier ref_eval cf (Some cl)) u) c) = Inr ()"
    for c :: "(db, (string \<times> Video) list, unit go_error) Crawler" and u cf cl
    by (simp add: NewFrontier_def Let_def fr_SeedListing_def fcall_def call_defs)
  ultimately show ?thesis
    by (simp add: production_start_def BloomInit_def main_crawler_def New_crawler_def Let_def case_prod_beta)
qed

theorem restart_loses_nothing_witness:
  "\<exists>k ps' k' C'. production_start ref_eval None (Inr (sample_info 0)) None False
       (main_crawler ref_eval (Load (\<lambda>_. '''')) None sample_driver [] (sample_world sample_db)) = (None, k) \<and>
     schedule sample_order (production_pool sample_tables sample_ticks (\<lambda>_. [sample_turn]) k, k) = (ps', k') \<and>
     sample_url \<in> C' \<and>
     (map_of (mstate k') sample_url \<noteq> None \<or> has_job (fstate k') sample_url \<or>
       dead_forever (dhashes (fstate k') keyDead) sample_url)"
proof -
  obtain k where start: "production_start ref_eval None (Inr (sample_info 0)) None False
     (main_crawler ref_eval (Load (\<lambda>_. '''')) None sample_driver [] (sample_world sample_db)) = (None, k)"
    using sample_start by blast
  let ?ps = "production_pool sample_tables sample_ticks (\<lambda>_. [sample_turn]) k"
  obtain ps' k' where run: "schedule sample_order (?ps, k) = (ps', k')" by fastforce
  then have steps: "pool_steps (around ref_eval (readSeedURLs None base_url) sample_driver map_of k) (?ps, k) (ps', k')"
    by (metis schedule_steps)
  have prior: "crawls ref_eval sample_config (NewURLClassifier (Load (\<lambda>_. '''')) (readSeedURLs None base_url)) sample_driver map_of
      ({}, empty_db, []) ({sample_url}, fstate (sample_world sample_db), [])"
    using sample_run by (simp add: readSeedURLs_def sample_world_def)
  have "redis_server ref_eval" "mongo_store sample_driver map_of" by unfold_locales
  from restart_loses_nothing [OF this sample_times prior start steps] start run show ?thesis by blast
qed

end
