(* ===== verification/Worker_Counts.thy ===== *)
theory Worker_Counts
  imports Crawl_Interleavings
begin

text \<open>
  How far concurrent workers overshoot: each worker reads the context and, in a test run, the count at
  the head of its loop, and counts a video only later. A goroutine's local fact is a pair of how many
  videos it may have under way at once (one for a worker, none for a reconciler) and how many it has.
\<close>

subsection \<open>Actions that count nothing\<close>

definition quiet :: "('s, 'm, 'e) Crawler \<Rightarrow> ('s, 'm, 'e) Crawler \<Rightarrow> bool" where
  "quiet c c' \<longleftrightarrow> count c' = count c \<and> (stopped c \<longrightarrow> stopped c')"

lemma quiet_refl [simp]: "quiet c c" "quiet c (meter f c)" "quiet c (stopFn c)"
  by (simp_all add: quiet_def)

lemma quiet_fcall: "fcall op c = (r, c') \<Longrightarrow> quiet c c'"
  using fcall_more fcall_frame by (fastforce simp: quiet_def)

lemma quiet_resolve [simp]: "quiet c (resolve op c)"
proof -
  obtain r c1 where call: "fcall op c = (r, c1)" by fastforce
  with quiet_fcall [OF call] show ?thesis by (auto simp: resolve_def quiet_def split: sum.split)
qed

lemma quiet_fatal [simp]: "quiet c (maybeFatalAdmission e c)"
  by (simp add: maybeFatalAdmission_def)

lemma quiet_admit: "admitURL raw c = (r, c') \<Longrightarrow> quiet c c'"
  by (auto simp: admitURL_def Let_def quiet_def split: if_splits dest!: quiet_fcall)

lemma quiet_store: "store_video v c = (r, c') \<Longrightarrow> quiet c c'"
  by (auto simp: store_video_def quiet_def split: prod.splits)

lemma quiet_process: "process tbl url got c = (out, c') \<Longrightarrow> quiet c c'"
  using process_frame by (fastforce simp: quiet_def)

subsection \<open>Videos under way\<close>

text \<open>
  An action keeps the sum of the videos counted and those the goroutine has under way, or takes one up
  where \<open>go\<close> allows it.
\<close>

definition counts ::
  "(('s, 'm, 'e) Crawler \<Rightarrow> bool) \<Rightarrow> ('s, 'm, 'e) Crawler \<Rightarrow> int \<times> int \<Rightarrow> ('s, 'm, 'e) Crawler \<Rightarrow> int \<times> int \<Rightarrow> bool" where
  "counts go c k c' k' \<longleftrightarrow> fst k' = fst k \<and> 0 \<le> snd k' \<and> snd k' \<le> fst k \<and> (stopped c \<longrightarrow> stopped c') \<and>
     (count c' + snd k' \<le> count c + snd k \<or> go c \<and> count c' \<le> count c)"

abbreviation counting :: "(('s, 'm, 'e) Crawler \<Rightarrow> bool) \<Rightarrow> int \<times> int \<Rightarrow> ('s, 'm, 'e) goroutine \<Rightarrow> bool" where
  "counting go \<equiv> follows (\<lambda>_ _. True) (counts go)"

lemma counts_quiet: "quiet c c' \<Longrightarrow> 0 \<le> b \<Longrightarrow> b \<le> n \<Longrightarrow> counts go c (n, b) c' (n, b)"
  by (simp add: counts_def quiet_def)

lemma counting_act:
  "0 \<le> b \<Longrightarrow> b \<le> n \<Longrightarrow> (\<And>c. quiet c (f c)) \<Longrightarrow> counting go (n, b) p \<Longrightarrow> counting go (n, b) (act f p)"
  by (rule follows_act) (blast intro: counts_quiet)

lemma counting_ask:
  "0 \<le> b \<Longrightarrow> b \<le> n \<Longrightarrow> (\<And>c r c'. op c = (r, c') \<Longrightarrow> quiet c c') \<Longrightarrow> (\<And>r. counting go (n, b) (h r)) \<Longrightarrow>
   counting go (n, b) (ask op h)"
  by (rule follows_ask) (blast intro: counts_quiet)

lemma counting_check:
  "0 \<le> b \<Longrightarrow> b \<le> n \<Longrightarrow> counting go (n, b) p \<Longrightarrow> counting go (n, b) q \<Longrightarrow> counting go (n, b) (check t p q)"
  by (rule follows_check) (blast intro: counts_quiet quiet_refl)+

text \<open>The head of the loop, where a worker takes up a video.\<close>

lemma counting_enter:
  assumes "counting go (1, 1) q" and "\<And>c. \<not> t c \<Longrightarrow> go c"
  shows "counting go (1, 0) (check t Halt q)"
proof (rule follows_check)
  fix c
  show "\<exists>k'. counts go c (1, 0) c k' \<and> counting go k' Halt"
    by (intro exI [of _ "(1, 0)"]) (simp add: counts_def follows_halt)
  show "\<not> t c \<Longrightarrow> \<exists>k'. counts go c (1, 0) c k' \<and> counting go k' q"
    using assms by (intro exI [of _ "(1, 1)"]) (simp add: counts_def)
qed

lemma counting_drop: "counting go (n, 0) p \<Longrightarrow> 0 \<le> b \<Longrightarrow> b \<le> n \<Longrightarrow> counting go (n, b) p"
proof (cases p)
  case (Atomic f g)
  assume p: "counting go (n, 0) p" and b: "0 \<le> b" "b \<le> n"
  have "\<exists>k'. counts go c (n, b) (f c) k' \<and> counting go k' (g c)" for c
  proof -
    obtain k' where k': "counts go c (n, 0) (f c) k'" "counting go k' (g c)"
      using follows_AtomicE [OF p [unfolded Atomic]] by blast
    then have "counts go c (n, b) (f c) k'" using b by (auto simp: counts_def)
    with k'(2) show ?thesis by blast
  qed
  then show ?thesis unfolding Atomic by (rule follows_to.atomic)
qed (simp add: follows_halt)

lemma counting_enqueue: "(\<And>r. counting go (1, b) (h r)) \<Longrightarrow> 0 \<le> b \<Longrightarrow> b \<le> 1 \<Longrightarrow> counting go (1, b) (enqueue_prog ls n h)"
  by (induction ls arbitrary: n) (auto intro!: counting_ask dest: quiet_admit split: sum.split)

lemma counting_record:
  assumes "counting go (1, 0) p"
  shows "counting go (1, 1) (record_prog v p)"
proof -
  have "counting go (1, 0) (act (\<lambda>c. c\<lparr>targets := targets c @ [v]\<rparr>) (act (Inc TargetsFound_update) p))"
    using assms by (intro counting_act) (simp_all add: quiet_def)
  then have "counting go (1, 0) (if \<not> IsTarget v then p
      else act (\<lambda>c. c\<lparr>targets := targets c @ [v]\<rparr>) (act (Inc TargetsFound_update) p))" using assms by simp
  then show ?thesis unfolding record_prog_def
    by (intro follows_act exI [of _ "(1, 0)"]) (simp add: counts_def)
qed

lemma counting_handle:
  fixes p :: "('s, 'm, 'e) goroutine"
  assumes "counting go (1, 0) p"
  shows "counting go (1, 1) (handle_prog job out p)"
proof -
  have ends: "counting go (1, b) (act (\<lambda>c. resolve (op c) c) p)"
    "counting go (1, b) (act (nack_job job) (act (maybeFatalAdmission e) p))" if "0 \<le> b" "b \<le> 1"
    for b e and op :: "('s, 'm, 'e) Crawler \<Rightarrow> time \<Rightarrow> 's \<Rightarrow> (gerr + 'r) \<times> 's"
    using counting_drop [OF assms that] by (auto intro!: counting_act that)
  show ?thesis
    by (cases "kind out")
       (auto simp: handle_prog_def Let_def
         intro!: ends counting_ask counting_record counting_enqueue dest: quiet_store split: option.split)
qed

lemma counting_job: "counting go (1, 0) p \<Longrightarrow> counting go (1, 1) (job_prog tbl t job p)"
  by (auto simp: job_prog_def intro!: counting_act counting_ask counting_handle follows_halt dest: quiet_process)

lemma counting_worker: "counting (\<lambda>c. \<not> stopped c) (1, 0) (worker_prog tbl ts)"
proof (induction ts)
  case (Cons t ts)
  show ?case unfolding worker_prog.simps
    using Cons counting_drop [OF Cons]
    by (intro counting_enter counting_ask)
       (auto intro!: counting_act counting_job dest: quiet_fcall split: sum.split option.split)
qed (simp add: follows_halt)

lemma counting_workerTest: "counting (\<lambda>c. count c < maxTestVideos) (1, 0) (workerTest_prog tbl ts)"
proof (induction ts)
  case (Cons t ts)
  show ?case unfolding workerTest_prog.simps
    using Cons counting_drop [OF Cons]
    by (intro counting_check follows_halt counting_enter counting_ask)
       (auto intro!: counting_job dest: quiet_fcall split: sum.split option.split)
qed (simp add: follows_halt)

lemma counting_poll: "counting go (0, 0) (poll_prog ds)"
  by (induction ds) (auto intro!: follows_halt counting_act counting_check counting_ask dest: quiet_fcall split: sum.split)

lemma counting_scheduler: "p \<in> set (scheduler_pool F limit ins) \<Longrightarrow> counting go (0, 0) p"
  by (erule scheduler_pool_closed)
     (auto intro: follows_halt intro!: counting_act counting_check counting_ask dest: quiet_fcall split: sum.split)

subsection \<open>Bounds over a pool\<close>

text \<open>The goroutines of a pool have what they may have under way: the list of local facts is well formed.\<close>

definition capped :: "int list \<Rightarrow> (int \<times> int) list \<Rightarrow> bool" where
  "capped caps ks \<longleftrightarrow> map fst ks = caps \<and> (\<forall>k \<in> set ks. 0 \<le> snd k \<and> snd k \<le> fst k)"

definition under_way :: "(int \<times> int) list \<Rightarrow> int" where
  "under_way ks = sum_list (map snd ks)"

lemma capped_update:
  assumes "capped caps ks" and "i < length ks" and "counts go c (ks ! i) c' k'"
  shows "capped caps (ks[i := k'])"
proof -
  have "map fst (ks[i := k']) = map fst ks" using assms(2,3) by (simp add: map_update counts_def list_update_same_conv)
  with assms set_update_subset_insert [of ks i k'] show ?thesis by (auto simp: capped_def counts_def)
qed

lemma under_way_update: "i < length ks \<Longrightarrow> under_way (ks[i := k']) = under_way ks + snd k' - snd (ks ! i)"
  by (simp add: under_way_def sum_list_map_update)

lemma under_way_nonneg: "capped caps ks \<Longrightarrow> 0 \<le> under_way ks"
  unfolding under_way_def capped_def by (rule sum_list_nonneg) auto

lemma under_way_le: "capped caps ks \<Longrightarrow> under_way ks \<le> sum_list caps"
  by (auto simp: capped_def under_way_def intro: sum_list_mono)

lemma outside_quiet: "outside F cl clk maint D docs c c' \<Longrightarrow> quiet c c'"
  by (cases rule: outside.cases) (auto simp: quiet_def)

interpretation plain: protocol "\<lambda>_. capped caps" "\<lambda>_ _. True" "counts go" "outside F cl clk maint D docs"
  for caps go F cl clk maint D docs
  by unfold_locales (auto intro: capped_update)

text \<open>While videos are taken up below \<open>n\<close> only.\<close>

definition below :: "int \<Rightarrow> int list \<Rightarrow> ('s, 'm, 'e) Crawler \<Rightarrow> (int \<times> int) list \<Rightarrow> bool" where
  "below n caps c ks \<longleftrightarrow> capped caps ks \<and> count c + under_way ks \<le> n - 1 + sum_list caps"

interpretation limited: protocol "below n caps" "\<lambda>_ _. True" "counts (\<lambda>c. count c < n)" "outside F cl clk maint D docs"
  for n caps F cl clk maint D docs
proof (unfold_locales, goal_cases)
  case (2 c ks i c' k')
  then have inv: "below n caps c ks" and i: "i < length ks" and step: "counts (\<lambda>c. count c < n) c (ks ! i) c' k'" .
  have "capped caps (ks[i := k'])" using capped_update [OF _ i step] inv by (simp add: below_def)
  moreover from this have "under_way (ks[i := k']) \<le> sum_list caps" by (rule under_way_le)
  ultimately show ?case
    using inv step under_way_update [OF i, of k'] by (auto simp: below_def counts_def)
qed (auto simp: below_def quiet_def dest: outside_quiet)

text \<open>Once the crawl is stopped, no more are taken up.\<close>

definition winding_down :: "int \<Rightarrow> int list \<Rightarrow> ('s, 'm, 'e) Crawler \<Rightarrow> (int \<times> int) list \<Rightarrow> bool" where
  "winding_down n caps c ks \<longleftrightarrow> capped caps ks \<and> stopped c \<and> count c + under_way ks \<le> n"

interpretation stopping: protocol "winding_down n caps" "\<lambda>_ _. True" "counts (\<lambda>c. \<not> stopped c)" "outside F cl clk maint D docs"
  for n caps F cl clk maint D docs
proof (unfold_locales, goal_cases)
  case (2 c ks i c' k')
  then have inv: "winding_down n caps c ks" and i: "i < length ks" and step: "counts (\<lambda>c. \<not> stopped c) c (ks ! i) c' k'" .
  have "capped caps (ks[i := k'])" using capped_update [OF _ i step] inv by (simp add: winding_down_def)
  then show ?case
    using inv step under_way_update [OF i, of k'] by (auto simp: winding_down_def counts_def)
qed (auto simp: winding_down_def quiet_def dest: outside_quiet)

text \<open>What the goroutines of the two pools start with.\<close>

definition start_credits :: "Config \<Rightarrow> nat \<Rightarrow> (int \<times> int) list" where
  "start_credits cf others = replicate 7 (0, 0) @ replicate (nat (Workers cf)) (1, 0) @ replicate others (0, 0)"

lemma start_credits_facts:
  "capped (map fst (start_credits cf n)) (start_credits cf n)" "under_way (start_credits cf n) = 0"
  "sum_list (map fst (start_credits cf n)) = int (nat (Workers cf))"
  by (auto simp: start_credits_def capped_def under_way_def sum_list_replicate set_replicate_conv_if)

lemma scheduler_pool_length [simp]: "length (scheduler_pool F limit ins) = 7"
  by (simp add: scheduler_pool_def)

lemma counting_pools:
  "list_all2 (counting (\<lambda>c. \<not> stopped c)) (start_credits (conf c) 0) (production_pool tbl ins turns c)"
  "list_all2 (counting (\<lambda>c. count c < maxTestVideos)) (start_credits (conf c) 1) (test_pool tbl ins turns polls c)"
proof -
  have sched: "list_all2 (counting go) (replicate 7 (0, 0)) (scheduler_pool F limit ins)" for go F limit
    by (auto simp: list_all2_conv_all_nth intro!: counting_scheduler [OF nth_mem])
  show "list_all2 (counting (\<lambda>c. \<not> stopped c)) (start_credits (conf c) 0) (production_pool tbl ins turns c)"
    "list_all2 (counting (\<lambda>c. count c < maxTestVideos)) (start_credits (conf c) 1) (test_pool tbl ins turns polls c)"
    unfolding start_credits_def production_pool_def test_pool_def Run_pool_def RunTest_pool_def
    by (intro list_all2_appendI sched; simp add: list_all2_conv_all_nth counting_worker counting_workerTest counting_poll)+
qed

text \<open>
  C14: a test run overshoots its bound by less than the number of its workers. Each test worker checks
  the count and counts its video later, so that several may pass the check at once: in any interleaving at
  most one video less than the bound is counted, and one more for each worker.
\<close>

theorem test_overshoot:
  assumes "count k < maxTestVideos"
    and "pool_steps (outside F cl clk maint D docs) (test_pool tbl ins turns polls k, k) (ps', k')"
  shows "count k' \<le> maxTestVideos - 1 + int (nat (Workers (conf k)))"
proof -
  let ?ks = "start_credits (conf k) 1"
  have "below maxTestVideos (map fst ?ks) k ?ks"
    using assms(1) start_credits_facts [of "conf k" 1] by (simp add: below_def)
  from limited.steps_keep [OF assms(2) counting_pools(2) this]
  obtain ks' where ks': "capped (map fst ?ks) ks'" "count k' + under_way ks' \<le> maxTestVideos - 1 + sum_list (map fst ?ks)"
    by (auto simp: below_def)
  have "0 \<le> under_way ks'" by (rule under_way_nonneg [OF ks'(1)])
  with ks'(2) start_credits_facts(3) [of "conf k" 1] show ?thesis by simp
qed

text \<open>
  C15: stopping takes effect within one video per worker. Once the context is cancelled, in any state
  that the goroutines have come to, at most one more video is counted for each worker, however long
  the goroutines go on.
\<close>

theorem stop_bounded:
  assumes "pool_steps (outside F cl clk maint D docs) (production_pool tbl ins turns k, k) (ps1, k1)"
    and "stopped k1"
    and "pool_steps (outside F cl clk maint D docs) (ps1, k1) (ps2, k2)"
  shows "count k2 \<le> count k1 + int (nat (Workers (conf k)))"
proof -
  let ?ks = "start_credits (conf k) 0" and ?caps = "map fst (start_credits (conf k) 0)"
  from plain.steps_keep [OF assms(1) counting_pools(1) start_credits_facts(1)]
  obtain ks1 where ks1: "list_all2 (counting (\<lambda>c. \<not> stopped c)) ks1 ps1" "capped ?caps ks1" by blast
  have "winding_down (count k1 + sum_list ?caps) ?caps k1 ks1"
    using ks1(2) under_way_le [OF ks1(2)] assms(2) by (simp add: winding_down_def)
  from stopping.steps_keep [OF assms(3) ks1(1) this]
  obtain ks2 where ks2: "capped ?caps ks2" "count k2 + under_way ks2 \<le> count k1 + sum_list ?caps"
    by (auto simp: winding_down_def)
  have "0 \<le> under_way ks2" by (rule under_way_nonneg [OF ks2(1)])
  with ks2(2) start_credits_facts(3) [of "conf k" 0] show ?thesis by simp
qed

subsection \<open>Instances\<close>

text \<open>A frontier that always has the same job to lease, two workers, and four videos counted so far.\<close>

definition busy_job :: Job where
  "busy_job = \<lparr>jobID = ''1'', jobURL = sample_url, jobClass = ClassVideo, jobMember = job_member 1 sample_url\<rparr>"

definition busy_frontier :: "unit Frontier" where
  "busy_frontier = undefined\<lparr>Lease := \<lambda>_ s. (Inr (Some busy_job), s)\<rparr>"

definition busy_crawler :: "(unit, (string \<times> Video) list, unit go_error) Crawler" where
  "busy_crawler =
     \<lparr>fstate = (), metrics = zero_metrics, stopped = False, clock = sconst 0,
      conf = (Load (\<lambda>_. ''''))\<lparr>Workers := 2\<rparr>, frontier = busy_frontier, mongo = sample_driver, mstate = [],
      targets = [], count = 4\<rparr>"

abbreviation busy_env ::
  "(unit, (string \<times> Video) list, unit go_error) Crawler \<Rightarrow> (unit, (string \<times> Video) list, unit go_error) Crawler \<Rightarrow> bool" where
  "busy_env \<equiv> outside busy_frontier (\<lambda>_. ClassVideo) (\<lambda>_. True) (\<lambda>_ _. False) sample_driver map_of"

lemma busy_simps:
  "VideoPattern (conf busy_crawler) = watch" "Workers (conf busy_crawler) = 2" "count busy_crawler = 4"
  "stopped busy_crawler = False" "frontier busy_crawler = busy_frontier" "mongo busy_crawler = sample_driver"
  "\<not> ctx_done sample_turn" "\<not> wait_err sample_turn" "Lease busy_frontier t s = (Inr (Some busy_job), s)"
  "jobURL busy_job = sample_url"
  by (simp_all add: busy_crawler_def sample_turn_def busy_frontier_def busy_job_def)

lemma sample_page:
  assumes "VideoPattern (conf c) = watch"
  shows "kind (fst (process tbl sample_url (fetched sample_turn) c)) = pageVideo"
    and "snd (process tbl sample_url (fetched sample_turn) c) =
      Inc VideoFound_update (Inc PagesProcessed_update (Inc FetchDuration_update c))"
proof -
  have "\<not> Contains ''T - VidLii'' ''Rate Limited''" by code_simp
  moreover have "Contains sample_url watch"
    by (simp add: sample_url_def Contains_base) (simp add: Contains_def Index_here)
  ultimately show "kind (fst (process tbl sample_url (fetched sample_turn) c)) = pageVideo"
    "snd (process tbl sample_url (fetched sample_turn) c) =
      Inc VideoFound_update (Inc PagesProcessed_update (Inc FetchDuration_update c))"
    using assms by (simp_all add: process_def sample_turn_def Let_def)
qed

lemmas busy_run = busy_simps sample_page upt_rec scheduler_pool_def check_def ask_def act_def job_prog_def
  fcall_def handle_prog_def store_video_def record_prog_def Let_def Upsert_def ref_driver_def

text \<open>Both workers pass the check before either counts: the bound is reached.\<close>

theorem test_overshoot_witness:
  "\<exists>ps' k'. pool_steps busy_env
       (test_pool sample_tables sample_ticks (\<lambda>_. [sample_turn]) [] busy_crawler, busy_crawler) (ps', k') \<and>
     count k' = maxTestVideos + 1 \<and> count k' \<le> maxTestVideos - 1 + int (nat (Workers (conf busy_crawler)))"
proof -
  let ?ps = "test_pool sample_tables sample_ticks (\<lambda>_. [sample_turn]) [] busy_crawler"
  obtain ps' k' where run: "schedule [7, 7, 8, 8, 7, 7, 7, 7, 8, 8, 8, 8] (?ps, busy_crawler) = (ps', k')" by fastforce
  have "count (snd (schedule [7, 7, 8, 8, 7, 7, 7, 7, 8, 8, 8, 8] (?ps, busy_crawler))) = 6"
    by (simp add: test_pool_def RunTest_pool_def maxTestVideos_def busy_run)
  with run have "count k' = maxTestVideos + 1" by (simp add: maxTestVideos_def)
  moreover have steps: "pool_steps busy_env (?ps, busy_crawler) (ps', k')"
    using schedule_steps run by metis
  moreover have "count busy_crawler < maxTestVideos" by (simp add: busy_simps maxTestVideos_def)
  ultimately show ?thesis using test_overshoot [OF _ steps] by blast
qed

theorem stop_bounded_witness:
  "\<exists>ps1 k1 ps2 k2. pool_steps busy_env
       (production_pool sample_tables sample_ticks (\<lambda>_. [sample_turn]) busy_crawler, busy_crawler) (ps1, k1) \<and>
     stopped k1 \<and> pool_steps busy_env (ps1, k1) (ps2, k2) \<and>
     count k2 = count k1 + 2 \<and> count k2 \<le> count k1 + int (nat (Workers (conf busy_crawler)))"
proof -
  let ?ps = "production_pool sample_tables sample_ticks (\<lambda>_. [sample_turn]) busy_crawler"
  obtain ps1 c1 where first: "schedule [7, 8] (?ps, busy_crawler) = (ps1, c1)" by fastforce
  obtain ps2 k2 where last: "schedule [7, 7, 7, 7, 8, 8, 8, 8] (ps1, stopFn c1) = (ps2, k2)" by fastforce
  have "pool_steps busy_env (?ps, busy_crawler) (ps1, c1)" using schedule_steps first by metis
  also have "pool_step busy_env (ps1, c1) (ps1, stopFn c1)" by (intro pool_step.outside outside.stop)
  finally have start: "pool_steps busy_env (?ps, busy_crawler) (ps1, stopFn c1)" .
  have rest: "pool_steps busy_env (ps1, stopFn c1) (ps2, k2)" using schedule_steps last by metis
  have c1: "c1 = busy_crawler" and ps1: "ps1 = fst (schedule [7, 8] (?ps, busy_crawler))"
    using first by (auto simp: production_pool_def Run_pool_def busy_run)
  have "count (snd (schedule [7, 7, 7, 7, 8, 8, 8, 8] (ps1, stopFn busy_crawler))) = 6"
    unfolding ps1 by (simp add: production_pool_def Run_pool_def busy_run)
  with last c1 have more: "count k2 = count (stopFn c1) + 2" by (simp add: busy_simps)
  have stopped: "stopped (stopFn c1)" by simp
  from stop_bounded [OF start stopped rest] start stopped rest more show ?thesis by blast
qed

end
