(* ===== verification/Worker_Stats.thy ===== *)
theory Worker_Stats
  imports Crawl_Interleavings
begin

text \<open>
  The statistics the crawler keeps in memory, its count and its list of targets, name stored videos only,
  at every moment of every interleaving. A goroutine's local fact is a pair of how many videos it has
  counted without having appended them yet, and the URLs it knows to be stored.
\<close>

text \<open>Every target the crawler counts is a target and in the collection.\<close>

definition stats_ok :: "('m \<Rightarrow> string \<Rightarrow> Video option) \<Rightarrow> ('s, 'm, 'e) Crawler \<Rightarrow> bool" where
  "stats_ok docs k \<longleftrightarrow> (\<forall>v \<in> set (targets k). IsTarget v \<and> docs (mstate k) (vURL v) \<noteq> None)"

subsection \<open>What resolving and admitting leave alone\<close>

definition same_stats :: "('s, 'm, 'e) Crawler \<Rightarrow> ('s, 'm, 'e) Crawler \<Rightarrow> bool" where
  "same_stats k k' \<longleftrightarrow> targets k' = targets k \<and> mstate k' = mstate k \<and> mongo k' = mongo k \<and> count k' = count k"

lemma same_stats_simps [simp]:
  "same_stats k k" "same_stats k (meter f k)" "same_stats k (stopFn k)" "same_stats k (maybeFatalAdmission e k)"
  by (simp_all add: same_stats_def maybeFatalAdmission_def)

lemma fcall_stats: "fcall op k = (r, k') \<Longrightarrow> same_stats k k'"
  by (simp add: same_stats_def fcall_more)

lemma resolve_stats [simp]: "same_stats k (resolve op k)"
  by (auto simp: resolve_def same_stats_def split: prod.splits sum.splits dest!: fcall_more)

lemma admit_stats: "admitURL raw k = (r, k') \<Longrightarrow> same_stats k k'"
  by (auto simp: admitURL_def Let_def split: if_splits intro: fcall_stats)

lemma process_stats: "process tbl url got k = (out, k') \<Longrightarrow> same_stats k k'"
  using process_frame by fastforce

subsection \<open>The protocol\<close>

definition stat_pre :: "('e, 'm) driver \<Rightarrow> ('m \<Rightarrow> string \<Rightarrow> Video option) \<Rightarrow> ('s, 'm, 'e) Crawler \<Rightarrow> int \<times> string set \<Rightarrow> bool" where
  "stat_pre D docs c k \<longleftrightarrow> mongo c = D \<and> 0 \<le> fst k \<and> snd k \<subseteq> dom (docs (mstate c))"

definition records ::
  "('m \<Rightarrow> string \<Rightarrow> Video option) \<Rightarrow> ('s, 'm, 'e) Crawler \<Rightarrow> int \<times> string set \<Rightarrow> ('s, 'm, 'e) Crawler \<Rightarrow> int \<times> string set \<Rightarrow> bool" where
  "records docs c k c' k' \<longleftrightarrow>
     mongo c' = mongo c \<and> dom (docs (mstate c)) \<subseteq> dom (docs (mstate c')) \<and>
     set (targets c') \<subseteq> set (targets c) \<union> {v. IsTarget v \<and> vURL v \<in> snd k} \<and>
     snd k' \<subseteq> dom (docs (mstate c')) \<and> 0 \<le> fst k' \<and>
     TargetCount c' + fst k' - count c' \<le> TargetCount c + fst k - count c"

definition stat_inv ::
  "int \<Rightarrow> ('e, 'm) driver \<Rightarrow> ('m \<Rightarrow> string \<Rightarrow> Video option) \<Rightarrow> ('s, 'm, 'e) Crawler \<Rightarrow> (int \<times> string set) list \<Rightarrow> bool" where
  "stat_inv n D docs c ks \<longleftrightarrow>
     (\<forall>k \<in> set ks. stat_pre D docs c k) \<and> mongo c = D \<and> stats_ok docs c \<and>
     TargetCount c + sum_list (map fst ks) \<le> count c + n"

context crawl_contract
begin

lemma outside_grows:
  assumes "outside F cl clk maint D docs c c'"
  shows "dom (docs (mstate c)) \<subseteq> dom (docs (mstate c')) \<and> mongo c' = mongo c \<and> targets c' = targets c \<and> count c' = count c"
  using assms
proof cases
  case (process s m)
  then obtain C' where "crawl_steps F cl clk maint D docs ({}, fstate c, mstate c) (C', s, m)" by blast
  with process(1) crawl_steps_grow show ?thesis by fastforce
qed simp_all

end

sublocale crawl_contract \<subseteq> stats: protocol "stat_inv n D docs" "stat_pre D docs" "records docs" "outside F cl clk maint D docs"
  for n
proof
  show "stat_inv n D docs c ks \<Longrightarrow> i < length ks \<Longrightarrow> stat_pre D docs c (ks ! i)" for c ks i
    by (simp add: stat_inv_def)
next
  fix c ks i c' k'
  assume inv: "stat_inv n D docs c ks" and i: "i < length ks" and step: "records docs c (ks ! i) c' k'"
  have pre: "stat_pre D docs c (ks ! i)" using inv i by (simp add: stat_inv_def)
  have grows: "dom (docs (mstate c)) \<subseteq> dom (docs (mstate c'))" and m: "mongo c' = mongo c"
    using step by (simp_all add: records_def)
  have "stats_ok docs c'"
  proof (unfold stats_ok_def, intro ballI conjI)
    fix v
    assume "v \<in> set (targets c')"
    then have "v \<in> set (targets c) \<or> IsTarget v \<and> vURL v \<in> snd (ks ! i)" using step by (auto simp: records_def)
    then have "IsTarget v \<and> vURL v \<in> dom (docs (mstate c))"
      using inv pre by (auto simp: stat_inv_def stats_ok_def stat_pre_def)
    with grows show "IsTarget v" "docs (mstate c') (vURL v) \<noteq> None" by auto
  qed
  moreover have "\<forall>k \<in> set (ks[i := k']). stat_pre D docs c' k"
  proof
    fix k
    assume "k \<in> set (ks[i := k'])"
    then have "k \<in> set ks \<or> k = k'" using set_update_subset_insert [of ks i k'] by blast
    then show "stat_pre D docs c' k"
      using inv step grows m unfolding stat_inv_def stat_pre_def records_def by blast
  qed
  ultimately show "stat_inv n D docs c' (ks[i := k'])"
    using inv step m sum_list_map_update [OF i, of fst k'] by (simp add: stat_inv_def records_def)
next
  fix c ks c'
  assume inv: "stat_inv n D docs c ks" and "outside F cl clk maint D docs c c'"
  note same = outside_grows [OF this(2)]
  then have "docs (mstate c') u \<noteq> None" if "docs (mstate c) u \<noteq> None" for u using that by auto
  with same inv have "stats_ok docs c'" by (simp add: stat_inv_def stats_ok_def)
  moreover have "\<forall>k \<in> set ks. stat_pre D docs c' k"
    using inv same unfolding stat_inv_def stat_pre_def by blast
  ultimately show "stat_inv n D docs c' ks"
    using inv same by (simp add: stat_inv_def TargetCount_def)
qed

subsection \<open>The goroutines keep it\<close>

abbreviation recording :: "('e, 'm) driver \<Rightarrow> ('m \<Rightarrow> string \<Rightarrow> Video option) \<Rightarrow> int \<times> string set \<Rightarrow> ('s, 'm, 'e) goroutine \<Rightarrow> bool" where
  "recording D docs \<equiv> follows (stat_pre D docs) (records docs)"

lemma records_same: "same_stats c c' \<Longrightarrow> stat_pre D docs c k \<Longrightarrow> records docs c k c' k"
  by (auto simp: same_stats_def records_def stat_pre_def TargetCount_def)

lemma recording_act:
  "(\<And>c. same_stats c (f c)) \<Longrightarrow> recording D docs k p \<Longrightarrow> recording D docs k (act f p)"
  by (rule follows_act) (blast intro: records_same)

lemma recording_ask:
  "(\<And>c r c'. op c = (r, c') \<Longrightarrow> same_stats c c') \<Longrightarrow> (\<And>r. recording D docs k (h r)) \<Longrightarrow> recording D docs k (ask op h)"
  by (rule follows_ask) (blast intro: records_same)

lemma recording_check: "recording D docs k p \<Longrightarrow> recording D docs k q \<Longrightarrow> recording D docs k (check b p q)"
  by (rule follows_check) (blast intro: records_same same_stats_simps(1))+

text \<open>What is known to be stored may be forgotten.\<close>

lemma recording_mono: "recording D docs (b, S) p \<Longrightarrow> S \<subseteq> S' \<Longrightarrow> recording D docs (b, S') p"
proof (cases p)
  case (Atomic f g)
  assume p: "recording D docs (b, S) p" and S: "S \<subseteq> S'"
  have "\<exists>k'. records docs c (b, S') (f c) k' \<and> recording D docs k' (g c)" if "stat_pre D docs c (b, S')" for c
  proof -
    have "stat_pre D docs c (b, S)" using that S by (auto simp: stat_pre_def)
    then obtain k' where k': "records docs c (b, S) (f c) k'" "recording D docs k' (g c)"
      using follows_AtomicE [OF p [unfolded Atomic]] by blast
    have "records docs c (b, S') (f c) k'" using k'(1) S unfolding records_def by auto
    with k'(2) show ?thesis by blast
  qed
  then show ?thesis unfolding Atomic by (rule follows_to.atomic)
qed (simp add: follows_halt)

lemma recording_enqueue: "(\<And>r. recording D docs k (h r)) \<Longrightarrow> recording D docs k (enqueue_prog ls n h)"
  by (induction ls arbitrary: n) (auto intro!: recording_ask dest: admit_stats split: sum.split)

lemma recording_store:
  assumes "mongo_store D docs" and "recording D docs (0, insert (vURL v) S) (h None)" "\<And>e. recording D docs (0, S) (h (Some e))"
  shows "recording D docs (0, S) (ask (store_video v) h)"
proof (rule follows_ask)
  fix c err c'
  assume pre: "stat_pre D docs c (0, S)" and run: "store_video v c = (err, c')"
  then obtain m' where up: "Upsert D v (mstate c) = (err, m')" and c': "c' = c\<lparr>mstate := m'\<rparr>"
    by (auto simp: store_video_def stat_pre_def split: prod.splits)
  have grows: "dom (docs (mstate c)) \<subseteq> dom (docs m')" "err = None \<Longrightarrow> vURL v \<in> dom (docs m')"
    using mongo_store.replace_done [OF assms(1), of "vURL v" v "mstate c" m']
      mongo_store.replace_failed [OF assms(1), of "vURL v" v "mstate c" _ m'] up
    by (cases err; fastforce simp: Upsert_def)+
  have "records docs c (0, S) c' (0, if err = None then insert (vURL v) S else S)"
    using pre grows c' unfolding records_def stat_pre_def TargetCount_def by (auto simp: subset_iff)
  then show "\<exists>k'. records docs c (0, S) c' k' \<and> recording D docs k' (h err)"
    using assms(2,3) by (cases err) auto
qed

lemma recording_record:
  assumes "recording D docs (0, S) p" and "vURL v \<in> S"
  shows "recording D docs (0, S) (record_prog v p)"
proof -
  have "recording D docs (0, S) (act (Inc TargetsFound_update) p)" by (rule recording_act [OF _ assms(1)]) simp
  then have append: "recording D docs (1, S) (act (\<lambda>c. c\<lparr>targets := targets c @ [v]\<rparr>) (act (Inc TargetsFound_update) p))"
    if "IsTarget v"
    using that assms(2)
    by (intro follows_act exI [of _ "(0, S)"]) (auto simp: records_def stat_pre_def TargetCount_def)
  show ?thesis
  proof (cases "IsTarget v")
    case True
    with append show ?thesis unfolding record_prog_def
      by (intro follows_act exI [of _ "(1, S)"]) (auto simp: records_def stat_pre_def TargetCount_def)
  next
    case False
    with assms(1) show ?thesis unfolding record_prog_def
      by (intro follows_act exI [of _ "(0, S)"]) (auto simp: records_def stat_pre_def TargetCount_def)
  qed
qed

lemma recording_handle:
  fixes p :: "('s, 'm, 'e) goroutine"
  assumes "mongo_store D docs" and "recording D docs (0, {}) p"
  shows "recording D docs (0, {}) (handle_prog job out p)"
proof -
  have ends: "recording D docs (0, S) (act (\<lambda>c. resolve (op c) c) p)"
    "recording D docs (0, S) (act (nack_job job) (act (maybeFatalAdmission e) p))"
    for S e and op :: "('s, 'm, 'e) Crawler \<Rightarrow> time \<Rightarrow> 's \<Rightarrow> (gerr + 'r) \<times> 's"
    using recording_mono [OF assms(2), of S] by (auto intro!: recording_act)
  show ?thesis
    by (cases "kind out")
       (auto simp: handle_prog_def Let_def
         intro!: ends recording_store [OF assms(1)] recording_record recording_enqueue split: option.split)
qed

lemma recording_workers:
  assumes "mongo_store D docs"
  shows "recording D docs (0, {}) (worker_prog tbl ts)" and "recording D docs (0, {}) (workerTest_prog tbl ts)"
proof -
  have job: "recording D docs (0, {}) (job_prog tbl t job p)" if "recording D docs (0, {}) p" for t job p
    using that by (auto simp: job_prog_def
        intro!: follows_halt recording_act recording_ask recording_handle [OF assms] dest: process_stats)
  show "recording D docs (0, {}) (worker_prog tbl ts)"
    by (induction ts) (auto intro!: follows_halt recording_act recording_ask recording_check job
        dest: fcall_stats split: sum.split option.split)
  show "recording D docs (0, {}) (workerTest_prog tbl ts)"
    by (induction ts) (auto intro!: follows_halt recording_ask recording_check job
        dest: fcall_stats split: sum.split option.split)
qed

lemma recording_pools:
  assumes "mongo_store D docs" and "p \<in> set (production_pool tbl ins turns c) \<union> set (test_pool tbl ins turns polls c)"
  shows "recording D docs (0, {}) p"
proof -
  have "recording D docs (0, {}) p" if "p \<in> set (scheduler_pool F limit ins)" for F limit
    using that by (rule scheduler_pool_closed)
      (auto intro: follows_halt intro!: recording_act recording_check recording_ask dest: fcall_stats split: sum.split)
  moreover have "recording D docs (0, {}) (poll_prog ds)" for ds
    by (induction ds) (auto intro!: follows_halt recording_act recording_check recording_ask dest: fcall_stats split: sum.split)
  ultimately show ?thesis using assms(2)
    by (auto simp: production_pool_def test_pool_def Run_pool_def RunTest_pool_def recording_workers [OF assms(1)])
qed

subsection \<open>Statistics of a run\<close>

context crawl_contract
begin

lemmas pool_stats = stats.steps_keep
lemmas alone_stats = stats.alone_keeps

end

lemma FindTargets_stats:
  assumes "mongo_store D docs" and "FindTargets D m = (vs, None)" and "\<forall>u v. docs m u = Some v \<longrightarrow> vURL v = u"
  shows "\<forall>v \<in> set vs. IsTarget v \<and> docs m (vURL v) \<noteq> None" and "length vs \<le> card (dom (docs m))"
proof -
  have find: "FindVideos D True m = Inr (vs, None)" using assms(2) by (auto simp: FindTargets_def split: sum.splits)
  with mongo_store.targets_found [OF assms(1) find] assms(3)
  show "\<forall>v \<in> set vs. IsTarget v \<and> docs m (vURL v) \<noteq> None" by (auto simp: ran_def)
  show "length vs \<le> card (dom (docs m))"
    unfolding mongo_store.found_once [OF assms(1) find]
    by (rule card_mono [OF mongo_store.finite_docs [OF assms(1)]]) auto
qed

lemma Resume_stats:
  assumes "mongo_store D docs" "mongo k = D" "\<forall>u v. docs (mstate k) u = Some v \<longrightarrow> vURL v = u"
  shows "stats_ok docs k \<Longrightarrow> stats_ok docs (Resume k)"
    and "targets k = [] \<Longrightarrow> 0 \<le> count k \<Longrightarrow> TargetCount (Resume k) \<le> count (Resume k)"
proof -
  note found = FindTargets_stats [OF assms(1) _ assms(3)]
  have counted: "n = int (card (dom (docs (mstate k))))" if "CountDocuments (mongo k) (mstate k) = Inr n" for n
    using mongo_store.counted [OF assms(1)] that assms(2) by blast
  show "stats_ok docs k \<Longrightarrow> stats_ok docs (Resume k)"
    using found(1) assms(2) by (auto simp: Resume_def stats_ok_def split: sum.split prod.split option.split)
  show "targets k = [] \<Longrightarrow> 0 \<le> count k \<Longrightarrow> TargetCount (Resume k) \<le> count (Resume k)"
    using found(2) counted assms(2)
    by (auto simp: Resume_def TargetCount_def Count_docs_def split: sum.split prod.split option.split)
qed


text \<open>One worker by itself, and resuming.\<close>

lemma stats_stored:
  fixes k :: "(db, 'm, 'e) Crawler"
  assumes "mongo_store D docs" and "mongo k = D" and "stats_ok docs k"
  shows "stats_ok docs (worker tbl ts k) \<and>
    ((\<forall>u v. docs (mstate k) u = Some v \<longrightarrow> vURL v = u) \<longrightarrow> stats_ok docs (Resume k))"
proof
  have "redis_server ref_eval" by unfold_locales
  note ct = redis_contract [OF this assms(1), of DefaultFrontierConfig "\<lambda>_. ClassVideo"]
  have "stat_inv (TargetCount k - count k) D docs k [(0, {})]"
    using assms(2,3) by (simp add: stat_inv_def stat_pre_def)
  from crawl_contract.alone_stats [OF ct recording_workers(1) [OF assms(1)] this]
  show "stats_ok docs (worker tbl ts k)"
    unfolding worker_alone by (auto simp: stat_inv_def)
qed (use Resume_stats(1) [OF assms(1,2)] assms(3) in blast)


end
