(* ===== verification/Frontier_Traffic.thy ===== *)
theory Frontier_Traffic
  imports Frontier_Safety
begin

text \<open>
  Which jobs come into processing and leave it: of each script, what it does to the members of processing
  and to their leases, wherever it stops. Only the script of Lease brings a member in; only the scripts
  that resolve a job and those of the reaper take a lease away; and a script that is cut off leaves at
  most one member behind in processing without its lease.
\<close>

definition fenced :: "db \<Rightarrow> bool" where
  "fenced s \<longleftrightarrow>
     fence (dints s keyJobSeq) (dlists s keyReady) (dlists s keyProcessing) (dzsets s keyDelayed) (dzsets s keyLease)"

lemma fenced_inv: "frontier_inv vid A s \<Longrightarrow> fenced s"
  by (simp add: frontier_inv_def fenced_def)

text \<open>Every member of processing but those in \<open>X\<close> was there before, and has not lost its lease.\<close>

definition passes :: "string set \<Rightarrow> db \<Rightarrow> db \<Rightarrow> bool" where
  "passes X s t \<longleftrightarrow>
     (\<forall>m \<in> set (dlists t keyProcessing). m \<in> X \<or> m \<in> set (dlists s keyProcessing) \<and>
       (m \<in> zmembers (dzsets s keyLease) \<longrightarrow> m \<in> zmembers (dzsets t keyLease)))"

lemma passes_refl [simp]: "passes X s s"
  by (simp add: passes_def)

lemma passes_mono: "passes X s t \<Longrightarrow> X \<subseteq> Y \<Longrightarrow> passes Y s t"
  by (auto simp: passes_def)

lemma passes_trans: "passes X s t \<Longrightarrow> passes Y t u \<Longrightarrow> passes (X \<union> Y) s u"
  by (auto simp: passes_def)

abbreviation calmly :: "script \<Rightarrow> db \<Rightarrow> bool" where
  "calmly sc s \<equiv> always (\<lambda>t. fenced t \<and> passes {} s t) (\<lambda>_ _. True) sc s"

text \<open>A property of a script from every later state, for the inductions over the loops.\<close>

definition since :: "db \<Rightarrow> db \<Rightarrow> bool" where
  "since s t \<longleftrightarrow> fenced t \<and> passes {} s t"

lemma since_refl: "fenced s \<Longrightarrow> since s s"
  by (simp add: since_def)

lemmas traffic_rules = since_def fenced_def passes_def

subsection \<open>Scripts that neither lease nor resolve\<close>

lemma lease_traffic:
  assumes "fenced s"
  shows "always (\<lambda>t. fenced t \<and> (\<exists>m. passes {m} s t))
    (\<lambda>r t. case r of RBulk m \<Rightarrow> passes {m} s t \<and> m \<in> zmembers (dzsets t keyLease) | _ \<Rightarrow> passes {} s t)
    (luaLease keyReady keyProcessing keyLease now timeout) s"
  using assms by (auto simp: script_defs store_simps fenced_def passes_def Let_def inv_rules)

lemma passes_same:
  "dlists t keyProcessing = dlists s keyProcessing \<Longrightarrow> dzsets t keyLease = dzsets s keyLease \<Longrightarrow> passes X s t"
  by (simp add: passes_def)

lemma since_shrunk:
  "since s t \<Longrightarrow> set (dlists t' keyProcessing) \<subseteq> set (dlists t keyProcessing) \<Longrightarrow> dzsets t' keyLease = dzsets t keyLease \<Longrightarrow>
   fenced t' \<Longrightarrow> since s t'"
  by (auto simp: since_def passes_def)

lemma video_traffic:
  assumes "fenced s"
  shows "always (since s) (\<lambda>_ _. True) (luaAdmitVideo keyReady bloomKey keyDead keyJobSeq u now) s"
proof -
  have "always (since s) (\<lambda>_ _. True)
      (call_int (INCR keyJobSeq) (\<lambda>n. let item = job_member n u in
       call_do (LPUSH keyReady item) (
       call_int (BFADD bloomKey u) (\<lambda>added.
         if added = 0 then call_do (LREM keyReady item) (Return (RInt 0)) else Return (RInt 1))))) t"
    if "since s t" for t
  proof -
    have "fenced t" using that by (simp add: since_def)
    then show ?thesis
      by (auto simp: call_defs store_simps bf_add_def Let_def fenced_def inv_rules intro!: that since_shrunk [OF that])
  qed
  moreover have "since s s" "since s (s\<lparr>dhashes := h\<rparr>)" for h
    using assms by (simp_all add: since_def fenced_def passes_same)
  ultimately show ?thesis
    by (simp add: luaAdmitVideo_def call_bulk_def call_do_def store_simps Let_def split: option.split)
qed

lemma listing_traffic:
  assumes "fenced s"
  shows "always (since s) (\<lambda>_ _. True) (luaAdmitListing keyReady keyListingNext keyDead keyJobSeq u now p) s"
proof -
  have s: "since s s" using assms by (simp add: since_def)
  show ?thesis
    using assms
    by (cases "map_of (dhashes s keyDead) u"; cases "zscore (dzsets s keyListingNext) u")
       (auto simp: luaAdmitListing_def call_defs store_simps Let_def fenced_def inv_rules
         intro!: s since_shrunk [OF s] split: option.split)
qed

lemma seed_traffic: "fenced s \<Longrightarrow> always (since s) (\<lambda>_ _. True) (Call (ZADDNX keyListingNext sc u) Return) s"
  by (auto simp: store_simps since_def fenced_def passes_same)

lemma scheduler_traffic:
  "since s t \<Longrightarrow> always (since s) (\<lambda>_ _. True) (scheduler_loop keyListingNext keyReady keyJobSeq keyDead now p k due) t"
proof (induction due arbitrary: t k)
  case (Cons u due)
  then have "fenced t" by (simp add: since_def)
  then show ?case
    by (auto simp: call_defs store_simps Let_def fenced_def inv_rules
        intro!: Cons since_shrunk [OF Cons.prems] split: option.splits)
qed simp

lemma promote_traffic:
  "since s t \<Longrightarrow> always (since s) (\<lambda>_ _. True) (promote_loop keyDelayed keyReady keyJobSeq k due) t"
proof (induction due arbitrary: t)
  case (Cons m due)
  then have "fenced t" by (simp add: since_def)
  then show ?case
    by (auto simp: call_defs store_simps Let_def fenced_def inv_rules
        intro!: Cons since_shrunk [OF Cons.prems] split: option.splits)
qed simp

lemma sweep_traffic:
  "since s t \<Longrightarrow> always (since s) (\<lambda>_ _. True) (sweep_loop keyProcessing keyLease keyReady keyJobSeq k its) t"
proof (induction its arbitrary: t k)
  case (Cons m its)
  then have "fenced t" by (simp add: since_def)
  then show ?case
    by (auto simp: call_defs store_simps Let_def fenced_def inv_rules
        intro!: Cons since_shrunk [OF Cons.prems] split: option.splits dest: subsetD [OF set_remove1_subset])
qed simp

subsection \<open>Reaping and resolving\<close>

text \<open>At most one member is left in processing whose lease is gone.\<close>

definition but_one :: "db \<Rightarrow> db \<Rightarrow> bool" where
  "but_one s t \<longleftrightarrow> fenced t \<and> (\<exists>m. passes {m} s t)"

lemma since_but_one: "since s t \<Longrightarrow> but_one s t"
  by (auto simp: since_def but_one_def intro: passes_mono)

lemma but_oneI:
  "since s t \<Longrightarrow> set (dlists t' keyProcessing) \<subseteq> set (dlists t keyProcessing) \<Longrightarrow>
   zmembers (dzsets t keyLease) \<subseteq> insert m (zmembers (dzsets t' keyLease)) \<Longrightarrow> fenced t' \<Longrightarrow> but_one s t'"
  unfolding but_one_def since_def passes_def by blast

lemma since_resolved:
  "since s t \<Longrightarrow> set (dlists t' keyProcessing) \<subseteq> set (dlists t keyProcessing) - {m} \<Longrightarrow>
   zmembers (dzsets t keyLease) \<subseteq> insert m (zmembers (dzsets t' keyLease)) \<Longrightarrow> fenced t' \<Longrightarrow> since s t'"
  unfolding since_def passes_def by blast

lemma fenced_distinct: "fenced s \<Longrightarrow> distinct (dlists s keyProcessing)"
  by (simp add: fenced_def fence_def)

lemma reap_traffic:
  "since s t \<Longrightarrow> always (but_one s) (\<lambda>_. since s) (reap_loop keyLease keyReady keyProcessing keyJobSeq k due) t"
proof (induction due arbitrary: t k)
  case (Cons m due)
  then have f: "fenced t" by (simp add: since_def)
  show ?case
  proof (cases "m \<in> zmembers (dzsets t keyLease)")
    case True
    with f fenced_distinct [OF f] since_but_one [OF Cons.prems] show ?thesis
      by (auto simp: call_defs store_simps Let_def fenced_def inv_rules set_remove1_eq
          intro!: Cons.IH but_oneI [OF Cons.prems, of _ m] since_resolved [OF Cons.prems, of _ m] split: option.split)
  next
    case False
    then have "zrem m (dzsets t keyLease) = dzsets t keyLease"
      by (auto simp: zrem_def zmembers_def intro!: filter_True)
    then have "t\<lparr>dzsets := (dzsets t)(keyLease := zrem m (dzsets t keyLease))\<rparr> = t" by simp
    with False Cons since_but_one [OF Cons.prems] show ?thesis by (simp add: call_defs store_simps Let_def)
  qed
qed (simp add: since_but_one)

text \<open>The two stages of a resolution: the lease is gone, then the job has left processing.\<close>

definition released :: "string \<Rightarrow> db \<Rightarrow> db \<Rightarrow> bool" where
  "released m s t \<longleftrightarrow> fenced t \<and> passes {m} s t \<and> m \<notin> zmembers (dzsets t keyLease)"

definition resolved :: "string \<Rightarrow> db \<Rightarrow> db \<Rightarrow> bool" where
  "resolved m s t \<longleftrightarrow> since s t \<and> m \<notin> set (dlists t keyProcessing) \<inter> zmembers (dzsets t keyLease)"

lemma released_next:
  "released m s t \<Longrightarrow> dlists t' keyProcessing = dlists t keyProcessing \<Longrightarrow> dzsets t' keyLease = dzsets t keyLease \<Longrightarrow>
   fenced t' \<Longrightarrow> released m s t'"
  by (simp add: released_def passes_def)

lemma released_removed:
  "released m s t \<Longrightarrow> dlists t' keyProcessing = remove1 m (dlists t keyProcessing) \<Longrightarrow> dzsets t' keyLease = dzsets t keyLease \<Longrightarrow>
   fenced t' \<Longrightarrow> released m s t' \<and> resolved m s t'"
  using fenced_distinct [of t] by (auto simp: released_def resolved_def since_def passes_def)

lemma released_lease:
  assumes "fenced s"
  shows "released m s (s\<lparr>dzsets := (dzsets s)(keyLease := zrem m (dzsets s keyLease))\<rparr>)"
  using assms by (auto simp: released_def passes_def fenced_def inv_rules)

lemma resolved_stale:
  "fenced s \<Longrightarrow> m \<notin> zmembers (dzsets s keyLease) \<Longrightarrow>
   resolved m s (s\<lparr>dzsets := (dzsets s)(keyLease := zrem m (dzsets s keyLease))\<rparr>)"
  by (auto simp: resolved_def since_def passes_def fenced_def inv_rules)

lemma fail_delay_traffic:
  assumes "released m s t"
  shows "always (\<lambda>t. fenced t \<and> passes {m} s t) (\<lambda>_. resolved m s)
     (fail_delay keyProcessing keyDelayed keyJobSeq m u now til ladder tries) t"
proof -
  have "fenced t" "m \<notin> zmembers (dzsets t keyLease)" using assms by (simp_all add: released_def)
  with released_next [OF assms] released_removed [OF assms] show ?thesis
    by (auto simp: fail_delay_def call_defs store_simps Let_def fenced_def released_def inv_rules split: option.split)
qed

lemma fail_bury_traffic:
  assumes "released m s t"
  shows "always (\<lambda>t. fenced t \<and> passes {m} s t) (\<lambda>_. resolved m s)
     (fail_bury keyProcessing keyDead keyAttempts keyStrikes keyListingNext m u why til) t"
proof -
  have "fenced t" "m \<notin> zmembers (dzsets t keyLease)" using assms by (simp_all add: released_def)
  with released_next [OF assms] released_removed [OF assms] show ?thesis
    by (auto simp: fail_bury_def call_defs store_simps Let_def fenced_def released_def inv_rules)
qed

lemma resolving_traffic:
  assumes "resolving m sc" and "fenced s"
  shows "always (\<lambda>t. fenced t \<and> passes {m} s t) (\<lambda>_. resolved m s) sc s"
proof -
  let ?t = "s\<lparr>dzsets := (dzsets s)(keyLease := zrem m (dzsets s keyLease))\<rparr>"
  note t = released_lease [OF assms(2), of m]
  have "fenced ?t" using t by (simp add: released_def)
  note rules = released_next [OF t] released_removed [OF t] this assms(2) resolved_stale [OF assms(2), of m]
  show ?thesis
    using assms(1)
  proof (cases rule: resolving.cases)
    case (3 u strike maxs now why til ladder)
    have "released m s (s\<lparr>dzsets := (dzsets s)(keyLease := zrem m (dzsets s keyLease)), dhashes := h\<rparr>)" for h
      by (rule released_next [OF t]) (use \<open>fenced ?t\<close> in \<open>simp_all add: fenced_def\<close>)
    with rules show ?thesis unfolding 3
      by (auto simp: luaFail_def call_defs store_simps Let_def STALE_def fail_delay_traffic fail_bury_traffic
          released_def split: option.split)
  qed (use rules in \<open>auto simp: resolving_defs call_defs store_simps Let_def STALE_def OK_def fenced_def released_def
        inv_rules split: option.split\<close>)
qed

subsection \<open>The calls\<close>

lemma lease_call_traffic:
  assumes "redis_server (client f)" and "fenced s" and "fr_Lease f now s = (r, s')"
  shows "fenced s' \<and> (case r of
      Inl e \<Rightarrow> \<exists>m. passes {m} s s'
    | Inr None \<Rightarrow> passes {} s s'
    | Inr (Some j) \<Rightarrow> passes {jobMember j} s s' \<and> jobMember j \<in> zmembers (dzsets s' keyLease))"
proof -
  note run = lease_traffic [OF assms(2), of "time_Unix now" "go_div (LeaseTimeout (cfg f)) time_Second"]
  obtain res where res: "client f (luaLease keyReady keyProcessing keyLease (time_Unix now)
      (go_div (LeaseTimeout (cfg f)) time_Second)) s = (res, s')"
    using assms(3) by (auto simp: fr_Lease_def Let_def split: prod.splits)
  show ?thesis
    using redis_server.eval_inv [OF assms(1) run] redis_server.eval_post [OF assms(1) run, of _ s'] res assms(3)
    by (cases res; cases "projr res") (auto simp: fr_Lease_def Let_def split: prod.splits)
qed

lemma calm_call:
  assumes "redis_server ev" and "fenced s" and "always (since s) (\<lambda>_ _. True) sc s"
  shows "since s (snd (ev sc s))"
  using redis_server.eval_inv [OF assms(1,3)] .

lemma admit_call_traffic:
  assumes "redis_server (client f)" and "fenced s"
  shows "since s (snd (fr_AdmitVideo f now u s))" "since s (snd (fr_AdmitListing f now u s))"
  using calm_call [OF assms video_traffic [OF assms(2)]] calm_call [OF assms listing_traffic [OF assms(2)]]
  by (simp_all add: fr_AdmitVideo_def fr_AdmitListing_def Let_def case_prod_beta)

lemma tick_call_traffic:
  assumes "redis_server (client f)" and "fenced s"
  shows "since s (snd (fr_Promote f now s))" "since s (snd (fr_RunListingScheduler f now s))" "since s (snd (fr_Sweep f s))"
proof -
  have s: "since s s" using assms(2) by (simp add: since_def)
  have "always (since s) (\<lambda>_ _. True) (luaPromote keyDelayed keyReady keyJobSeq now limit) s"
    "always (since s) (\<lambda>_ _. True) (luaListingScheduler keyListingNext keyReady keyJobSeq keyDead now limit p) s"
    "always (since s) (\<lambda>_ _. True) (luaSweep keyProcessing keyLease keyReady keyJobSeq limit) s" for now limit p
    using s by (simp_all add: luaPromote_def luaListingScheduler_def luaSweep_def call_arr_def store_simps
        promote_traffic scheduler_traffic sweep_traffic)
  from this [THEN calm_call [OF assms]]
  show "since s (snd (fr_Promote f now s))" "since s (snd (fr_RunListingScheduler f now s))" "since s (snd (fr_Sweep f s))"
    by (simp_all add: fr_Promote_def fr_RunListingScheduler_def fr_Sweep_def Let_def case_prod_beta)
qed

lemma reap_call_traffic:
  assumes "redis_server (client f)" and "fenced s" and "fr_Reap f now s = (r, s')"
  shows "but_one s s'" and "r = Inr n \<Longrightarrow> since s s'"
proof -
  have s: "since s s" using assms(2) by (simp add: since_def)
  have run: "always (but_one s) (\<lambda>_. since s) (luaReap keyLease keyReady keyProcessing keyJobSeq (time_Unix now) reapBatchLimit) s"
    using s since_but_one [OF s] by (simp add: luaReap_def call_arr_def store_simps reap_traffic)
  obtain res where res: "client f (luaReap keyLease keyReady keyProcessing keyJobSeq (time_Unix now) reapBatchLimit) s = (res, s')"
    and r: "r = cmd_Int64 res"
    using assms(3) by (auto simp: fr_Reap_def Let_def split: prod.splits)
  show "but_one s s'" using redis_server.eval_inv [OF assms(1) run] res by simp
  show "r = Inr n \<Longrightarrow> since s s'"
    using redis_server.eval_post [OF assms(1) run, of _ s'] res r by (cases res) auto
qed

end
