(* ===== verification/Worker_Shutdown.thy ===== *)
theory Worker_Shutdown
  imports Worker_Turns Crawl_Interleavings Frontier_Traffic
begin

text \<open>
  What a process leaves behind when its goroutines have ended: the jobs in processing that were not there
  when it started are at most as many as the errors it has counted. A goroutine's local fact is a pair of
  the jobs it holds, and the errors it has met but not counted yet.
\<close>

subsection \<open>The protocol\<close>

definition counted_errors :: "('s, 'a) world_scheme \<Rightarrow> int" where
  "counted_errors c = LeaseErrors (metrics c) + ResolveErrors (metrics c) + ReconcileErrors (metrics c)"

text \<open>
  What happens outside the pool: stop requests, metrics, the collection, and calls of other processes that
  bring no job into processing and take no lease away from one that stays there.
\<close>

inductive beside :: "(db, 'm, 'e) Crawler \<Rightarrow> (db, 'm, 'e) Crawler \<Rightarrow> bool" where
  stop: "beside c (stopFn c)"
| metrics: "spares_errors f \<Longrightarrow> beside c (meter f c)"
| collection: "beside c (c\<lparr>mstate := m\<rparr>)"
| process: "since (fstate c) s \<Longrightarrow> beside c (c\<lparr>fstate := s\<rparr>)"

definition tend_pre :: "db Frontier \<Rightarrow> (db, 'm, 'e) Crawler \<Rightarrow> string set \<times> int \<Rightarrow> bool" where
  "tend_pre F c k \<longleftrightarrow> fenced (fstate c) \<and> frontier c = F \<and> 0 \<le> snd k"

text \<open>Who makes a step answers for the jobs \<open>X\<close> that it leaves in processing: an error counted or met for each.\<close>

definition tends :: "(db, 'm, 'e) Crawler \<Rightarrow> string set \<times> int \<Rightarrow> (db, 'm, 'e) Crawler \<Rightarrow> string set \<times> int \<Rightarrow> bool" where
  "tends c k c' k' \<longleftrightarrow> frontier c' = frontier c \<and> fenced (fstate c') \<and> 0 \<le> snd k' \<and>
     (\<exists>X. finite X \<and> int (card X) \<le> counted_errors c' - counted_errors c + snd k' - snd k \<and>
       (\<forall>m \<in> set (dlists (fstate c') keyProcessing). m \<in> X \<or>
          m \<in> fst k' \<and> m \<in> zmembers (dzsets (fstate c') keyLease) \<or>
          m \<in> set (dlists (fstate c) keyProcessing) \<and>
          (m \<in> zmembers (dzsets (fstate c) keyLease) \<longrightarrow>
             m \<in> zmembers (dzsets (fstate c') keyLease) \<and> (m \<in> fst k \<longrightarrow> m \<in> fst k'))))"

definition left_inv :: "db Frontier \<Rightarrow> int \<Rightarrow> string set \<Rightarrow> (db, 'm, 'e) Crawler \<Rightarrow> (string set \<times> int) list \<Rightarrow> bool" where
  "left_inv F n before c ks \<longleftrightarrow> (\<forall>k \<in> set ks. tend_pre F c k) \<and> fenced (fstate c) \<and> frontier c = F \<and>
     (\<exists>L. finite L \<and> int (card L) \<le> counted_errors c - n + sum_list (map snd ks) \<and>
       (\<forall>m \<in> set (dlists (fstate c) keyProcessing). m \<in> before \<or> m \<in> L \<or>
          m \<in> zmembers (dzsets (fstate c) keyLease) \<and> (\<exists>k \<in> set ks. m \<in> fst k)))"

lemma beside_calm:
  assumes "beside c c'" and "fenced (fstate c)"
  shows "frontier c' = frontier c \<and> since (fstate c) (fstate c') \<and> counted_errors c \<le> counted_errors c'"
  using assms(1)
proof cases
  case (metrics f)
  then have "LeaseErrors (metrics c) \<le> LeaseErrors (f (metrics c))" "ResolveErrors (metrics c) \<le> ResolveErrors (f (metrics c))"
    "ReconcileErrors (metrics c) \<le> ReconcileErrors (f (metrics c))"
    by (simp_all add: spares_errors_def)
  with metrics(1) since_refl [OF assms(2)] show ?thesis by (simp add: counted_errors_def)
qed (use since_refl [OF assms(2)] in \<open>simp_all add: counted_errors_def\<close>)

lemma left_kept:
  assumes "left_inv F n before c ks" and i: "i < length ks" and step: "tends c (ks ! i) c' k'"
  shows "left_inv F n before c' (ks[i := k'])"
proof -
  obtain L where L: "finite L" "int (card L) \<le> counted_errors c - n + sum_list (map snd ks)"
    "\<And>m. m \<in> set (dlists (fstate c) keyProcessing) \<Longrightarrow> m \<in> before \<or> m \<in> L \<or>
        m \<in> zmembers (dzsets (fstate c) keyLease) \<and> (\<exists>k \<in> set ks. m \<in> fst k)"
    using assms(1) unfolding left_inv_def by blast
  obtain X where X: "finite X" "int (card X) \<le> counted_errors c' - counted_errors c + snd k' - snd (ks ! i)"
    "\<And>m. m \<in> set (dlists (fstate c') keyProcessing) \<Longrightarrow> m \<in> X \<or>
       m \<in> fst k' \<and> m \<in> zmembers (dzsets (fstate c') keyLease) \<or>
       m \<in> set (dlists (fstate c) keyProcessing) \<and>
       (m \<in> zmembers (dzsets (fstate c) keyLease) \<longrightarrow>
          m \<in> zmembers (dzsets (fstate c') keyLease) \<and> (m \<in> fst (ks ! i) \<longrightarrow> m \<in> fst k'))"
    using step unfolding tends_def by blast
  have holders: "\<exists>k \<in> set (ks[i := k']). m \<in> fst k" if held: "\<exists>k \<in> set ks. m \<in> fst k" and keeps: "m \<in> fst (ks ! i) \<longrightarrow> m \<in> fst k'" for m
  proof -
    obtain k where "k \<in> set ks" and m: "m \<in> fst k" using held by blast
    then obtain j where j: "j < length ks" "ks ! j = k" by (auto simp: in_set_conv_nth)
    with keeps m have "m \<in> fst (ks[i := k'] ! j)" by (cases "j = i") auto
    with j(1) show ?thesis by (metis length_list_update nth_mem)
  qed
  have k': "k' \<in> set (ks[i := k'])" using i by (rule set_update_memI)
  have "card (L \<union> X) \<le> card L + card X" by (rule card_Un_le)
  then have "int (card (L \<union> X)) \<le> counted_errors c' - n + sum_list (map snd (ks[i := k']))"
    using L(2) X(2) sum_list_map_update [OF i, of snd k'] by linarith
  moreover have "\<forall>m \<in> set (dlists (fstate c') keyProcessing). m \<in> before \<or> m \<in> L \<union> X \<or>
      m \<in> zmembers (dzsets (fstate c') keyLease) \<and> (\<exists>k \<in> set (ks[i := k']). m \<in> fst k)"
    using L(3) X(3) holders k' by blast
  moreover have "\<forall>k \<in> set (ks[i := k']). tend_pre F c' k"
  proof
    fix k
    assume "k \<in> set (ks[i := k'])"
    then have "k \<in> set ks \<or> k = k'" using set_update_subset_insert [of ks i k'] by blast
    with assms(1) step show "tend_pre F c' k" by (auto simp: left_inv_def tend_pre_def tends_def)
  qed
  ultimately show ?thesis
    using assms(1) step L(1) X(1) unfolding left_inv_def tends_def by blast
qed

interpretation shutdown: protocol "left_inv F n before" "tend_pre F" tends beside
  for F n before
proof
  show "left_inv F n before c ks \<Longrightarrow> i < length ks \<Longrightarrow> tend_pre F c (ks ! i)" for c ks i
    by (simp add: left_inv_def)
  show "left_inv F n before c ks \<Longrightarrow> i < length ks \<Longrightarrow> tends c (ks ! i) c' k' \<Longrightarrow> left_inv F n before c' (ks[i := k'])"
    for c ks i c' k'
    by (rule left_kept)
next
  fix c ks c'
  assume inv: "left_inv F n before c ks" and "beside c c'"
  then have calm: "frontier c' = frontier c" "since (fstate c) (fstate c')" "counted_errors c \<le> counted_errors c'"
    using beside_calm by (auto simp: left_inv_def)
  then have "\<forall>k \<in> set ks. tend_pre F c' k" using inv by (simp add: left_inv_def tend_pre_def since_def)
  moreover obtain L where L: "finite L" "int (card L) \<le> counted_errors c - n + sum_list (map snd ks)"
    "\<forall>m \<in> set (dlists (fstate c) keyProcessing). m \<in> before \<or> m \<in> L \<or>
        m \<in> zmembers (dzsets (fstate c) keyLease) \<and> (\<exists>k \<in> set ks. m \<in> fst k)"
    using inv unfolding left_inv_def by blast
  moreover from this calm(2) have "\<forall>m \<in> set (dlists (fstate c') keyProcessing). m \<in> before \<or> m \<in> L \<or>
        m \<in> zmembers (dzsets (fstate c') keyLease) \<and> (\<exists>k \<in> set ks. m \<in> fst k)"
    unfolding since_def passes_def by blast
  ultimately show "left_inv F n before c' ks"
    using inv calm unfolding left_inv_def since_def by (intro conjI exI [of _ L]) auto
qed

subsection \<open>The goroutines keep it\<close>

abbreviation tending :: "db Frontier \<Rightarrow> string set \<times> int \<Rightarrow> (db, 'm, 'e) goroutine \<Rightarrow> bool" where
  "tending F \<equiv> follows_to (\<lambda>k. k = ({}, 0)) (tend_pre F) tends"

text \<open>An action that leaves processing alone, or takes members away from it with their leases.\<close>

definition calm :: "db Frontier \<Rightarrow> (db, 'm, 'e) Crawler \<Rightarrow> (db, 'm, 'e) Crawler \<Rightarrow> bool" where
  "calm F c c' \<longleftrightarrow> (frontier c = F \<longrightarrow> fenced (fstate c) \<longrightarrow>
     frontier c' = F \<and> since (fstate c) (fstate c') \<and> counted_errors c \<le> counted_errors c')"

lemma tends_calm: "calm F c c' \<Longrightarrow> tend_pre F c (K, n) \<Longrightarrow> tends c (K, n) c' (K, n)"
  unfolding tends_def calm_def tend_pre_def since_def passes_def
  by (intro conjI exI [of _ "{}"]) auto

lemma tending_act: "(\<And>c. calm F c (f c)) \<Longrightarrow> tending F k p \<Longrightarrow> tending F k (act f p)"
  by (cases k) (blast intro: follows_act tends_calm)

lemma tending_ask:
  "(\<And>c r c'. op c = (r, c') \<Longrightarrow> calm F c c') \<Longrightarrow> (\<And>r. tending F k (h r)) \<Longrightarrow> tending F k (ask op h)"
  by (cases k) (blast intro: follows_ask tends_calm)

lemma calm_same: "fstate c' = fstate c \<Longrightarrow> frontier c' = frontier c \<Longrightarrow> counted_errors c \<le> counted_errors c' \<Longrightarrow> calm F c c'"
  by (simp add: calm_def since_refl)

lemma calm_refl [simp]: "calm F c c" "calm F c (stopFn c)" "calm F c (maybeFatalAdmission e c)"
  by (simp_all add: calm_same counted_errors_def maybeFatalAdmission_def)

lemma calm_meter: "spares_errors f \<Longrightarrow> calm F c (meter f c)"
  by (rule calm_same) (simp_all add: counted_errors_def spares_errors_def add_mono)

lemma tending_check: "tending F k p \<Longrightarrow> tending F k q \<Longrightarrow> tending F k (check b p q)"
  by (cases k) (blast intro: follows_check tends_calm calm_refl(1))

text \<open>An error that has been met is counted.\<close>

lemma tending_count:
  assumes "tending F ({}, 0) p" and "upd = LeaseErrors_update \<or> upd = ReconcileErrors_update"
  shows "tending F ({}, 1) (act (Inc upd) p)"
proof (rule follows_act, intro exI conjI)
  fix c
  assume "tend_pre F c ({}, 1)"
  then show "tends c ({}, 1) (Inc upd c) ({}, 0)"
    using assms(2) unfolding tends_def tend_pre_def
    by (intro conjI exI [of _ "{}"]) (auto simp: counted_errors_def)
qed (rule assms(1))

text \<open>A resolution: the job is no longer held, and an error of it is counted at once.\<close>

lemma tending_resolve:
  fixes op :: "(db, 'm, 'e) Crawler \<Rightarrow> time \<Rightarrow> db \<Rightarrow> (gerr + 'r) \<times> db"
  assumes "redis_server (client f)" and "\<And>c now s. frontier c = F \<Longrightarrow> reports f m s (op c now s)" and "tending F ({}, 0) p"
  shows "tending F ({m}, 0) (act (\<lambda>c. resolve (op c) c) p)"
proof (rule follows_act, intro exI conjI)
  fix c :: "(db, 'm, 'e) Crawler"
  assume pre: "tend_pre F c ({m}, 0)"
  then have F: "frontier c = F" and fenced: "fenced (fstate c)" by (simp_all add: tend_pre_def)
  obtain r c1 where call: "fcall (op c) c = (r, c1)" by fastforce
  obtain sc where sc: "resolving m sc" "fstate c1 = snd (client f sc (fstate c))"
    "\<And>x. r = Inr x \<Longrightarrow> \<exists>q. fst (client f sc (fstate c)) = Inr q"
    "r = Inl ErrStaleLease \<Longrightarrow> fst (client f sc (fstate c)) = Inr (RBulk ''STALE'')"
    using assms(2) [OF F, of "fstate c" "shd (clock c)"] fcall_result [OF call] by (auto simp: reports_def)
  note run = resolving_traffic [OF sc(1) fenced]
  have part: "fenced (fstate c1)" "passes {m} (fstate c) (fstate c1)"
    using redis_server.eval_inv [OF assms(1) run] sc(2) by simp_all
  have post: "resolved m (fstate c) (fstate c1)" if "fst (client f sc (fstate c)) = Inr q" for q
    using redis_server.eval_post [OF assms(1) run, of q "fstate c1"] sc(2) that by (metis prod.collapse)
  have same: "metrics c1 = metrics c" "frontier c1 = frontier c" using fcall_frame [OF call] fcall_more [OF call] by simp_all
  show "tends c ({m}, 0) (resolve (op c) c) ({}, 0)"
  proof (cases "\<exists>x. r = Inr x \<or> r = Inl ErrStaleLease")
    case True
    then have "resolve (op c) c = c1" "resolved m (fstate c) (fstate c1)"
      using call sc(3,4) post by (auto simp: resolve_def)
    with part same show ?thesis
      unfolding tends_def resolved_def since_def passes_def
      by (intro conjI exI [of _ "{}"]) (auto simp: counted_errors_def)
  next
    case False
    then have "resolve (op c) c = Inc ResolveErrors_update c1" using call by (cases r) (auto simp: resolve_def)
    with part same show ?thesis
      unfolding tends_def passes_def by (intro conjI exI [of _ "{m}"]) (auto simp: counted_errors_def)
  qed
qed (rule assms(3))

lemma calm_fcall:
  assumes "fcall op c = (r, c')" and "\<And>now s. frontier c = F \<Longrightarrow> fenced s \<Longrightarrow> since s (snd (op now s))"
  shows "calm F c c'"
  using fcall_result [OF assms(1)] fcall_frame [OF assms(1)] fcall_more [OF assms(1)]
    assms(2) [of "fstate c" "shd (clock c)"]
  by (auto simp: calm_def counted_errors_def)

lemma calm_admit:
  assumes "redis_server ev" and "admitURL raw c = (r, c')"
  shows "calm (NewFrontier ev cf cl) c c'"
proof (cases "canonicalize (conf c) raw = ''''")
  case True
  with assms(2) show ?thesis by (simp add: admitURL_def)
next
  case False
  let ?f = "\<lparr>client = ev, classify = cl, cfg = cf\<rparr>"
  have "redis_server (client ?f)" using assms(1) by simp
  note calls = admit_call_traffic [OF this]
  have "calm (NewFrontier ev cf cl) c c'"
    if "fcall (\<lambda>now. op now (canonicalize (conf c) raw)) c = (r, c')"
      "op = AdmitVideo (frontier c) \<or> op = AdmitListing (frontier c)" for op
    by (rule calm_fcall [OF that(1)]) (use that(2) calls in \<open>auto simp: NewFrontier_def Let_def\<close>)
  with False assms(2) show ?thesis by (auto simp: admitURL_def Let_def split: if_splits)
qed

lemma calm_store: "store_video v c = (err, c') \<Longrightarrow> calm F c c'"
  by (auto simp: store_video_def counted_errors_def split: prod.splits intro: calm_same)

lemma calm_process: "process tbl url got c = (out, c') \<Longrightarrow> calm F c c'"
  by (frule process_resolve, rule calm_same)
     (auto simp: process_def Let_def counted_errors_def split: fetch.splits option.splits if_splits)

lemma tending_enqueue:
  assumes "redis_server ev"
  shows "(\<And>r. tending (NewFrontier ev cf cl) k (h r)) \<Longrightarrow> tending (NewFrontier ev cf cl) k (enqueue_prog ls n h)"
  by (induction ls arbitrary: n) (auto intro!: tending_ask dest: calm_admit [OF assms] split: sum.split)

lemma tending_record: "tending F k p \<Longrightarrow> tending F k (record_prog v p)"
  unfolding record_prog_def
  by (auto intro!: tending_act calm_meter calm_same simp: counted_errors_def spares_errors_def)

lemma tending_handle:
  assumes "redis_server ev" and "tending (NewFrontier ev cf cl) ({}, 0) p"
  shows "tending (NewFrontier ev cf cl) ({jobMember job}, 0) (handle_prog job out p)"
proof -
  let ?f = "\<lparr>client = ev, classify = cl, cfg = cf\<rparr>" and ?F = "NewFrontier ev cf cl" and ?k = "({jobMember job}, 0)"
  have server: "redis_server (client ?f)" using assms(1) by simp
  have fatal: "tending ?F ({}, 0) (act (maybeFatalAdmission e) p)" for e
    by (rule tending_act [OF _ assms(2)]) simp
  note resolve = tending_resolve [OF server]
  have ends: "tending ?F ?k (act (\<lambda>c. resolve (\<lambda>_. Ack (frontier c) job) c) p)"
    "tending ?F ?k (act (\<lambda>c. resolve (\<lambda>now. CompleteListing (frontier c) now job n) c) p)"
    "tending ?F ?k (act (\<lambda>c. resolve (\<lambda>now. Fail (frontier c) now job fc) c) p)"
    "tending ?F ?k (act (\<lambda>c. resolve (\<lambda>now. Terminal (frontier c) job why (untilFor (jobClass job) (q c) now)) c) p)"
    "tending ?F ?k (act (nack_job job) p)"
    "tending ?F ?k (act (nack_job job) (act (maybeFatalAdmission e) p))" for n fc q why e
    by (rule resolve, simp add: NewFrontier_def Let_def ack_reports nack_reports complete_reports fail_reports terminal_reports,
        rule assms(2) fatal)+
  show ?thesis
    by (cases "kind out")
       (auto simp: handle_prog_def intro!: ends tending_ask tending_record tending_enqueue [OF assms(1)]
         dest: calm_store split: option.split)
qed

lemma tending_job:
  assumes "redis_server ev" and "tending (NewFrontier ev cf cl) ({}, 0) p"
  shows "tending (NewFrontier ev cf cl) ({jobMember job}, 0) (job_prog tbl t job p)"
proof -
  let ?f = "\<lparr>client = ev, classify = cl, cfg = cf\<rparr>"
  have "tending (NewFrontier ev cf cl) ({jobMember job}, 0) (act (nack_job job) Halt)"
    by (rule tending_resolve [where f = ?f])
       (simp_all add: assms(1) NewFrontier_def Let_def nack_reports follows_to.halt)
  with tending_handle [OF assms] show ?thesis
    by (auto simp: job_prog_def intro!: tending_ask dest: calm_process)
qed

text \<open>Stats and Idle change nothing.\<close>

lemma read_calm:
  assumes "redis_server ev"
  shows "fcall (\<lambda>_. Stats (NewFrontier ev cf cl)) c = (r, c') \<Longrightarrow> calm F c c'"
    and "fcall (\<lambda>_. Idle (NewFrontier ev cf cl)) c = (r', c') \<Longrightarrow> calm F c c'"
proof -
  let ?f = "\<lparr>client = ev, classify = cl, cfg = cf\<rparr>"
  have same: "snd (fr_Stats ?f s) = s" "snd (fr_Idle ?f s) = s" for s
    by (simp_all add: redis_server.stats_same [OF assms] redis_server.idle_same [OF assms])
  show "fcall (\<lambda>_. Stats (NewFrontier ev cf cl)) c = (r, c') \<Longrightarrow> calm F c c'"
    by (erule calm_fcall) (simp add: NewFrontier_def Let_def same since_refl)
  show "fcall (\<lambda>_. Idle (NewFrontier ev cf cl)) c = (r', c') \<Longrightarrow> calm F c c'"
    by (erule calm_fcall) (simp add: NewFrontier_def Let_def same since_refl)
qed

lemma tending_lease:
  assumes "redis_server ev" and "tending (NewFrontier ev cf cl) ({}, 0) p"
  shows "tending (NewFrontier ev cf cl) ({}, 0) (ask (\<lambda>c. fcall (Lease (frontier c)) c) (\<lambda>r. case r of
      Inl e \<Rightarrow> act (Inc LeaseErrors_update) p
    | Inr None \<Rightarrow> p
    | Inr (Some job) \<Rightarrow> job_prog tbl t job p))" (is "tending ?F _ (ask _ ?rest)")
proof (rule follows_ask)
  fix c r c'
  assume pre: "tend_pre ?F c ({}, 0)" and call: "fcall (Lease (frontier c)) c = (r, c')"
  let ?f = "\<lparr>client = ev, classify = cl, cfg = cf\<rparr>"
  have F: "frontier c = ?F" and fenced: "fenced (fstate c)" using pre by (simp_all add: tend_pre_def)
  have "fr_Lease ?f (shd (clock c)) (fstate c) = (r, fstate c')"
    using fcall_result [OF call] by (simp add: F NewFrontier_def Let_def)
  from lease_call_traffic [OF _ fenced this] assms(1)
  have out: "fenced (fstate c')" "case r of Inl e \<Rightarrow> \<exists>m. passes {m} (fstate c) (fstate c')
    | Inr None \<Rightarrow> passes {} (fstate c) (fstate c')
    | Inr (Some j) \<Rightarrow> passes {jobMember j} (fstate c) (fstate c') \<and> jobMember j \<in> zmembers (dzsets (fstate c') keyLease)"
    by simp_all
  have same: "frontier c' = frontier c" "counted_errors c' = counted_errors c"
    using fcall_frame [OF call] fcall_more [OF call] by (simp_all add: counted_errors_def)
  have taken: "tends c ({}, 0) c' (K, n)"
    if "finite X" "int (card X) \<le> n" "passes (X \<union> K) (fstate c) (fstate c')" "K \<subseteq> zmembers (dzsets (fstate c') keyLease)" for K n X
    unfolding tends_def using out(1) same that unfolding passes_def by (intro conjI exI [of _ X]) auto
  show "\<exists>k'. tends c ({}, 0) c' k' \<and> tending ?F k' (?rest r)"
  proof (cases r)
    case (Inl e)
    with out(2) obtain m where "passes {m} (fstate c) (fstate c')" by auto
    then have "tends c ({}, 0) c' ({}, 1)" by (intro taken [of "{m}"]) simp_all
    with Inl tending_count [OF assms(2)] show ?thesis by auto
  next
    case (Inr a)
    show ?thesis
    proof (cases a)
      case None
      with out(2) Inr have "tends c ({}, 0) c' ({}, 0)" by (intro taken [of "{}"]) simp_all
      with Inr None assms(2) show ?thesis by auto
    next
      case (Some job)
      with out(2) Inr have "tends c ({}, 0) c' ({jobMember job}, 0)" by (intro taken [of "{}"]) simp_all
      with Inr Some tending_job [OF assms, of job tbl t] show ?thesis by auto
    qed
  qed
qed

lemma tending_worker: "redis_server ev \<Longrightarrow> tending (NewFrontier ev cf cl) ({}, 0) (worker_prog tbl ts)"
  by (induction ts) (auto intro!: follows_to.halt tending_check tending_lease)

text \<open>A reconciler answers for what a call of it leaves behind only where the call fails, and then counts it.\<close>

lemma tending_tick:
  assumes "\<And>now s. fenced s \<Longrightarrow> but_one s (snd (op now s))"
    and "\<And>now s n. fenced s \<Longrightarrow> fst (op now s) = Inr n \<Longrightarrow> since s (snd (op now s))"
    and "tending F ({}, 0) p" "\<And>n. tending F ({}, 0) (h n)"
  shows "tending F ({}, 0)
    (ask (fcall op) (\<lambda>r. case r of Inl e \<Rightarrow> act (Inc ReconcileErrors_update) p | Inr n \<Rightarrow> h n))"
proof (rule follows_ask)
  fix c :: "(db, 'm, 'e) Crawler" and r c'
  assume pre: "tend_pre F c ({}, 0)" and call: "fcall op c = (r, c')"
  have fenced: "fenced (fstate c)" using pre by (simp add: tend_pre_def)
  have run: "op (shd (clock c)) (fstate c) = (r, fstate c')" by (rule fcall_result [OF call])
  have same: "frontier c' = frontier c" "counted_errors c' = counted_errors c"
    using fcall_frame [OF call] fcall_more [OF call] by (simp_all add: counted_errors_def)
  show "\<exists>k'. tends c ({}, 0) c' k' \<and> tending F k' (case r of Inl e \<Rightarrow> act (Inc ReconcileErrors_update) p | Inr n \<Rightarrow> h n)"
  proof (cases r)
    case (Inl e)
    obtain m where "fenced (fstate c')" "passes {m} (fstate c) (fstate c')"
      using assms(1) [OF fenced, of "shd (clock c)"] run by (auto simp: but_one_def)
    with same have "tends c ({}, 0) c' ({}, 1)"
      unfolding tends_def passes_def by (intro conjI exI [of _ "{m}"]) auto
    with Inl tending_count [OF assms(3)] show ?thesis by auto
  next
    case (Inr n)
    have "since (fstate c) (fstate c')" using assms(2) [OF fenced, of "shd (clock c)" n] run Inr by simp
    with same have "calm F c c'" by (simp add: calm_def)
    with Inr assms(4) tends_calm [OF _ pre] show ?thesis by auto
  qed
qed

lemma tending_scheduler:
  fixes p :: "(db, 'm, 'e) goroutine"
  assumes "redis_server ev" and "p \<in> set (scheduler_pool (NewFrontier ev cf cl) limit ins)"
  shows "tending (NewFrontier ev cf cl) ({}, 0) p"
  using assms(2)
proof (rule scheduler_pool_closed)
  let ?f = "\<lparr>client = ev, classify = cl, cfg = cf\<rparr>" and ?F = "NewFrontier ev cf cl"
  fix op and h :: "int \<Rightarrow> (db, 'm, 'e) goroutine" and q :: "(db, 'm, 'e) goroutine"
  assume op: "op \<in> {RunListingScheduler ?F, Promote ?F, Reap ?F, \<lambda>_. Sweep ?F}"
    and q: "tending ?F ({}, 0) q" and h: "\<And>n. tending ?F ({}, 0) (h n)"
  have server: "redis_server (client ?f)" using assms(1) by simp
  have ops: "op \<in> {fr_RunListingScheduler ?f, fr_Promote ?f, fr_Reap ?f, \<lambda>_. fr_Sweep ?f}"
    using op by (simp add: NewFrontier_def Let_def)
  note calls = tick_call_traffic [OF server] reap_call_traffic [OF server]
  show "tending ?F ({}, 0) (ask (fcall op) (\<lambda>r. case r of Inl e \<Rightarrow> act (Inc ReconcileErrors_update) q | Inr n \<Rightarrow> h n))"
    by (rule tending_tick [OF _ _ q h]) (use ops calls in \<open>auto intro: since_but_one simp: prod_eq_iff\<close>)
qed (auto intro: follows_to.halt tending_act tending_check calm_meter
    intro!: tending_ask dest: read_calm [OF assms(1)])

subsection \<open>What is left behind\<close>

lemma tending_pool:
  assumes "redis_server ev" and "frontier c = NewFrontier ev cf cl" and "p \<in> set (production_pool tbl ins turns c)"
  shows "tending (NewFrontier ev cf cl) ({}, 0) p"
  using assms(2,3) tending_scheduler [OF assms(1)] tending_worker [OF assms(1)]
  by (auto simp: production_pool_def Run_pool_def)

lemma left_behind:
  fixes k :: "(db, 'm, 'e) Crawler"
  assumes F: "frontier k = F" and fenced: "fenced (fstate k)" and tending: "\<And>p. p \<in> set ps \<Longrightarrow> tending F ({}, 0) p"
    and steps: "pool_steps beside (ps, k) (ps', k')" and ended: "\<forall>p \<in> set ps'. p = Halt"
  shows "int (card (set (dlists (fstate k') keyProcessing) - set (dlists (fstate k) keyProcessing)))
    \<le> counted_errors k' - counted_errors k"
proof -
  let ?old = "set (dlists (fstate k) keyProcessing)" and ?new = "set (dlists (fstate k') keyProcessing)"
  have "left_inv F (counted_errors k) ?old k (replicate (length ps) ({}, 0))"
    using F fenced by (auto simp: left_inv_def tend_pre_def sum_list_replicate intro!: exI [of _ "{}"])
  moreover have "list_all2 (tending F) (replicate (length ps) ({}, 0)) ps"
    using tending by (simp add: list_all2_conv_all_nth)
  ultimately obtain ks where ks: "list_all2 (tending F) ks ps'" "left_inv F (counted_errors k) ?old k' ks"
    using shutdown.steps_keep [OF steps] by blast
  have "\<forall>x \<in> set ks. x = ({}, 0)"
    using follows_ended [OF ks(1) ended] by simp
  then have "ks = replicate (length ks) ({}, 0)" by (simp add: replicate_length_same)
  then have "\<forall>x \<in> set ks. fst x = {}" "sum_list (map snd ks) = 0"
    by (metis fst_conv in_set_replicate, metis map_replicate snd_conv sum_list_replicate mult_zero_right)
  with ks(2) obtain L where L: "finite L" "int (card L) \<le> counted_errors k' - counted_errors k" "?new - ?old \<subseteq> L"
    unfolding left_inv_def by fastforce
  with card_mono [OF L(1,3)] show ?thesis by linarith
qed



end
