(* ===== verification/Worker_Backlog.thy ===== *)
theory Worker_Backlog
  imports Worker_Shutdown Frontier_Admission
begin

text \<open>
  Progress: a worker whose pages bring no new links, on a server and a store that carry out what they are
  asked, empties the ready list in as many turns as it has jobs, oldest first.
\<close>

subsection \<open>Ready is only shortened by Lease\<close>

lemma fail_ends_ready:
  "always (\<lambda>t. dlists t keyReady = dlists s keyReady) (\<lambda>_ _. True)
     (fail_delay keyProcessing keyDelayed keyJobSeq m u now til ladder tries) s"
  "always (\<lambda>t. dlists t keyReady = dlists s keyReady) (\<lambda>_ _. True)
     (fail_bury keyProcessing keyDead keyAttempts keyStrikes keyListingNext m u why til) s"
  by (simp_all add: fail_delay_def fail_bury_def call_defs store_simps Let_def split: option.split)

lemma ready_cong:
  "dlists s keyReady = r \<Longrightarrow> always (\<lambda>t. dlists t keyReady = dlists s keyReady) Q sc s \<Longrightarrow> always (\<lambda>t. dlists t keyReady = r) Q sc s"
  by simp

lemma resolve_ready:
  "always (\<lambda>t. dlists t keyReady = dlists s keyReady) (\<lambda>_ _. True)
     (luaAck keyLease keyProcessing keyAttempts keyStrikes m u) s"
  "always (\<lambda>t. dlists t keyReady = dlists s keyReady) (\<lambda>_ _. True)
     (luaTerminal keyLease keyProcessing keyDead keyAttempts keyStrikes keyListingNext m u why til) s"
  "always (\<lambda>t. dlists t keyReady = dlists s keyReady) (\<lambda>_ _. True)
     (luaCompleteListing keyLease keyProcessing keyListingNext keyListingBarren keyDead keyAttempts keyStrikes m u n now base mx) s"
  "always (\<lambda>t. dlists t keyReady = dlists s keyReady) (\<lambda>_ _. True)
     (luaFail keyLease keyProcessing keyAttempts keyStrikes keyDelayed keyDead keyJobSeq keyListingNext
        m u strike maxs now why til ladder) s"
  by (simp_all add: luaAck_def luaTerminal_def luaCompleteListing_def call_defs store_simps Let_def STALE_def OK_def)
     (auto simp: luaFail_def call_defs store_simps Let_def STALE_def intro!: ready_cong fail_ends_ready split: option.split)

lemma calls_ready:
  assumes "redis_server (client f)"
  shows "dlists (snd (fr_Ack f j s)) keyReady = dlists s keyReady"
    and "dlists (snd (fr_Terminal f j why til s)) keyReady = dlists s keyReady"
    and "dlists (snd (fr_CompleteListing f now j n s)) keyReady = dlists s keyReady"
    and "dlists (snd (fr_Fail f now j fc s)) keyReady = dlists s keyReady"
  using resolve_ready [THEN redis_server.eval_inv [OF assms]]
  by (simp_all add: fr_Ack_def fr_Terminal_def fr_CompleteListing_def fr_Fail_def Let_def case_prod_beta)

subsection \<open>One turn\<close>

text \<open>A turn that is not cancelled and whose page, if there is one, has no links.\<close>

definition settles :: "turn \<Rightarrow> bool" where
  "settles t \<longleftrightarrow> \<not> ctx_done t \<and> \<not> wait_err t \<and>
     (case fetched t of GetErr cancelled \<Rightarrow> \<not> cancelled | Response st None \<Rightarrow> True | Response st (Some doc) \<Rightarrow> hrefs doc = [])"

text \<open>A turn that got the page it asked for.\<close>

definition served :: "turn \<Rightarrow> bool" where
  "served t \<longleftrightarrow> (case fetched t of
     Response st (Some doc) \<Rightarrow> st = 200 \<and> \<not> Contains (title_text doc) ''Rate Limited'' | _ \<Rightarrow> False)"

text \<open>What a turn leaves as it is: the ready list \<open>r\<close>, the connections, the running state; documents only come.\<close>

definition undisturbed :: "string list \<Rightarrow> ('m \<Rightarrow> string \<Rightarrow> Video option) \<Rightarrow> (db, 'm, 'e) Crawler \<Rightarrow> (db, 'm, 'e) Crawler \<Rightarrow> bool" where
  "undisturbed r docs k k' \<longleftrightarrow> dlists (fstate k') keyReady = r \<and> frontier k' = frontier k \<and> mongo k' = mongo k \<and>
     conf k' = conf k \<and> stopped k' = stopped k \<and> dom (docs (mstate k)) \<subseteq> dom (docs (mstate k'))"

lemma resolve_undisturbed:
  assumes "\<And>now s. dlists (snd (op now s)) keyReady = dlists s keyReady"
  shows "undisturbed (dlists (fstate k) keyReady) docs k (resolve op k)"
proof -
  obtain r k1 where call: "fcall op k = (r, k1)" by fastforce
  have "dlists (fstate k1) keyReady = dlists (fstate k) keyReady"
    using assms [of "shd (clock k)" "fstate k"] fcall_result [OF call] by simp
  with fcall_frame [OF call] fcall_more [OF call] call show ?thesis
    by (auto simp: resolve_def undisturbed_def split: sum.split)
qed

text \<open>The outcomes of such a turn, and what becomes of them.\<close>

lemma settles_outcome:
  assumes "settles t" and "process tbl url (fetched t) k = (out, k')"
  shows "kind out \<noteq> pageCancelled" and "links out = []"
    and "kind out = pageVideo \<Longrightarrow> vURL (video out) = url"
    and "served t \<Longrightarrow> Contains url (VideoPattern (conf k)) \<Longrightarrow> kind out = pageVideo"
    and "undisturbed (dlists (fstate k) keyReady) docs k k'"
  using assms
  by (auto simp: settles_def served_def process_def Let_def extractLinks_def outcome_def undisturbed_def
      split: fetch.splits option.splits if_splits)

lemma undisturbed_trans:
  "undisturbed r docs k k1 \<Longrightarrow> undisturbed r' docs k1 k2 \<Longrightarrow> undisturbed r' docs k k2"
  by (auto simp: undisturbed_def)

lemma settled_outcome:
  assumes "redis_server ev" and "mongo_store D docs" and "frontier k = NewFrontier ev c cl" and "mongo k = D"
    and up: "\<And>v m. fst (Upsert D v m) = None"
    and "kind out \<noteq> pageCancelled" and "links out = []"
  shows "undisturbed (dlists (fstate k) keyReady) docs k (handleOutcome job out k)"
    and "kind out = pageVideo \<Longrightarrow> vURL (video out) \<in> dom (docs (mstate (handleOutcome job out k)))"
proof -
  let ?f = "\<lparr>client = ev, classify = cl, cfg = c\<rparr>"
  have server: "redis_server (client ?f)" using assms(1) by simp
  have F: "Ack (frontier k) = fr_Ack ?f" "Fail (frontier k) = fr_Fail ?f" "Terminal (frontier k) = fr_Terminal ?f"
    "CompleteListing (frontier k) = fr_CompleteListing ?f"
    by (simp_all add: assms(3) NewFrontier_def Let_def)
  note calm = resolve_undisturbed [of _ _ docs] and ready = calls_ready [OF server]
  obtain m' where m': "Upsert D (video out) (mstate k) = (None, m')" using up [of "video out" "mstate k"] by (metis prod.collapse)
  have docs': "dom (docs (mstate k)) \<subseteq> dom (docs m')" "vURL (video out) \<in> dom (docs m')"
    using mongo_store.replace_done [OF assms(2), of "vURL (video out)" "video out" "mstate k" m'] m' by (auto simp: Upsert_def)
  let ?k1 = "recordVideo (video out) (k\<lparr>mstate := m'\<rparr>)"
  have k1: "undisturbed (dlists (fstate k) keyReady) docs k ?k1" "frontier ?k1 = frontier k" "fstate ?k1 = fstate k" "mstate ?k1 = m'"
    using docs' by (auto simp: undisturbed_def recordVideo_def Let_def)
  have video: "handleOutcome job out k = resolve (\<lambda>_. Ack (frontier k) job) ?k1" if "kind out = pageVideo"
    using that m' assms(4,7) k1(2) by (simp add: handleOutcome_def enqueueChildren_def)
  have acked: "undisturbed (dlists (fstate ?k1) keyReady) docs ?k1 (resolve (\<lambda>_. Ack (frontier k) job) ?k1)"
    by (rule calm) (simp add: F ready)
  show "undisturbed (dlists (fstate k) keyReady) docs k (handleOutcome job out k)"
  proof (cases "kind out")
    case pageVideo
    with video undisturbed_trans [OF k1(1) acked] k1(3) show ?thesis by simp
  qed (use assms(6,7) in \<open>auto simp: handleOutcome_def enqueueChildren_def Let_def F ready intro!: calm\<close>)
  show "kind out = pageVideo \<Longrightarrow> vURL (video out) \<in> dom (docs (mstate (handleOutcome job out k)))"
    using video acked docs'(2) k1(4) by (auto simp: undisturbed_def)
qed

text \<open>A turn takes the oldest job off the ready list.\<close>

lemma worker_turn:
  assumes "redis_reliable ev" and "mongo_store D docs" and "frontier k = NewFrontier ev c cl" and "mongo k = D"
    and up: "\<And>v m. fst (Upsert D v m) = None" and "\<not> stopped k" and t: "settles t"
    and ready: "dlists (fstate k) keyReady = ms @ [m]"
  shows "undisturbed ms docs k (worker tbl [t] k)"
    and "served t \<Longrightarrow> Contains (snd (splitMember m)) (VideoPattern (conf k)) \<Longrightarrow>
      snd (splitMember m) \<in> dom (docs (mstate (worker tbl [t] k)))"
proof -
  let ?f = "\<lparr>client = ev, classify = cl, cfg = c\<rparr>" and ?url = "snd (splitMember m)"
  have rel: "redis_reliable (client ?f)" using assms(1) by simp
  have server: "redis_server ev" by (rule redis_reliable.axioms(1) [OF assms(1)])
  obtain r k1 where call: "fcall (Lease (frontier k)) k = (r, k1)" by fastforce
  have "fr_Lease ?f (shd (clock k)) (fstate k) = (r, fstate k1)"
    using fcall_result [OF call] by (simp add: assms(3) NewFrontier_def Let_def)
  with lease_oldest [OF rel, where s = "fstate k" and now = "shd (clock k)"] ready
  obtain job where job: "r = Inr (Some job)" "jobURL job = ?url" "dlists (fstate k1) keyReady = ms" by auto
  have k1: "undisturbed ms docs k k1" "frontier k1 = frontier k" "mongo k1 = mongo k" "conf k1 = conf k"
    using fcall_frame [OF call] fcall_more [OF call] job(3) by (simp_all add: undisturbed_def)
  obtain out k2 where p: "process tbl ?url (fetched t) k1 = (out, k2)" by fastforce
  note out = settles_outcome [OF t p]
  have k2: "frontier k2 = NewFrontier ev c cl" "mongo k2 = D" "dlists (fstate k2) keyReady = ms"
    using out(5) [of docs] k1 job(3) assms(3,4) by (simp_all add: undisturbed_def)
  have done1: "worker tbl [t] k = handleOutcome job out k2"
    using assms(6) t call job p by (simp add: settles_def)
  note handled = settled_outcome [OF server assms(2) k2(1,2) up out(1,2)]
  show "undisturbed ms docs k (worker tbl [t] k)"
    using undisturbed_trans [OF undisturbed_trans [OF k1(1) out(5)] handled(1)] k2(3) by (simp only: done1)
  show "served t \<Longrightarrow> Contains ?url (VideoPattern (conf k)) \<Longrightarrow> ?url \<in> dom (docs (mstate (worker tbl [t] k)))"
    unfolding done1 using handled(2) out(3,4) k1(4) by simp
qed

lemma worker_cons:
  assumes "settles t" and "\<not> stopped k"
  shows "worker tbl (t # ts) k = worker tbl ts (worker tbl [t] k)"
  using assms by (auto simp: settles_def split: prod.split sum.split option.split)

subsection \<open>The whole list\<close>

lemma worker_drains:
  assumes "redis_reliable ev" and "mongo_store D docs" and "frontier k = NewFrontier ev c cl" and "mongo k = D"
    and up: "\<And>v m. fst (Upsert D v m) = None" and "\<not> stopped k"
    and "\<forall>t \<in> set ts. settles t" and "length ts = length (dlists (fstate k) keyReady)"
  shows "undisturbed [] docs k (worker tbl ts k) \<and>
    (\<forall>i < length ts. served (ts ! i) \<and> Contains (snd (splitMember (rev (dlists (fstate k) keyReady) ! i))) (VideoPattern (conf k)) \<longrightarrow>
      snd (splitMember (rev (dlists (fstate k) keyReady) ! i)) \<in> dom (docs (mstate (worker tbl ts k))))"
  using assms(3,4,6-8)
proof (induction ts arbitrary: k)
  case Nil
  then show ?case by (simp add: undisturbed_def)
next
  case (Cons t ts)
  note k = Cons.prems(1-4)
  obtain ms m where ready: "dlists (fstate k) keyReady = ms @ [m]"
    using Cons.prems(5) by (cases "dlists (fstate k) keyReady" rule: rev_cases) auto
  let ?k1 = "worker tbl [t] k"
  have t: "settles t" using k(4) by simp
  note turn = worker_turn [OF assms(1,2) k(1,2) up k(3) t ready, of tbl]
  have same: "frontier ?k1 = NewFrontier ev c cl" "mongo ?k1 = D" "\<not> stopped ?k1" "conf ?k1 = conf k"
      "dlists (fstate ?k1) keyReady = ms"
    using turn(1) [unfolded undisturbed_def] k(1-3) by (simp_all del: worker.simps)
  have rest: "\<forall>t \<in> set ts. settles t" "length ts = length (dlists (fstate ?k1) keyReady)"
    using k(4) Cons.prems(5) ready same(5) by simp_all
  note IH = Cons.IH [OF same(1-3) rest, THEN conjunct1] Cons.IH [OF same(1-3) rest, THEN conjunct2, rule_format]
  have "undisturbed [] docs k (worker tbl ts ?k1)" by (rule undisturbed_trans [OF turn(1) IH(1)])
  moreover have "snd (splitMember (rev (ms @ [m]) ! i)) \<in> dom (docs (mstate (worker tbl ts ?k1)))"
    if i: "i < length (t # ts)" and got: "served ((t # ts) ! i)"
      and video: "Contains (snd (splitMember (rev (ms @ [m]) ! i))) (VideoPattern (conf k))" for i
  proof (cases i)
    case 0
    then have "snd (splitMember m) \<in> dom (docs (mstate ?k1))" "rev (ms @ [m]) ! i = m"
      using turn(2) got video by (simp_all del: worker.simps)
    moreover have "dom (docs (mstate ?k1)) \<subseteq> dom (docs (mstate (worker tbl ts ?k1)))"
      using IH(1) unfolding undisturbed_def by blast
    ultimately show ?thesis by (metis subsetD)
  next
    case (Suc n)
    with IH(2) [of n] i got video same(4,5) show ?thesis by (simp del: worker.simps)
  qed
  moreover have split: "worker tbl (t # ts) k = worker tbl ts ?k1" by (rule worker_cons [OF t k(3)])
  ultimately show ?case unfolding split ready by blast
qed

text \<open>
  C6: a worker gets through its backlog. On a server and a store that carry out what they are asked, a worker
  that has as many turns as there are jobs ready, none cancelled and none on a page with links, empties the
  ready list and runs on; each job whose video page it got is in the collection afterwards, and what is left
  in processing is at most as much as the errors counted.
\<close>

theorem backlog_drains:
  assumes "redis_reliable ev" and "mongo_store D docs" and "assembled ev seeds D k"
    and "crawls ev (frontierConfig (conf k)) (NewURLClassifier (conf k) seeds) D docs ({}, empty_db, m0) (C, fstate k, mstate k)"
    and up: "\<And>v m. fst (Upsert D v m) = None" and "\<not> stopped k"
    and "\<forall>t \<in> set ts. settles t" and "length ts = length (dlists (fstate k) keyReady)"
  shows "dlists (fstate (worker tbl ts k)) keyReady = [] \<and> \<not> stopped (worker tbl ts k) \<and>
    int (card (set (dlists (fstate (worker tbl ts k)) keyProcessing) - set (dlists (fstate k) keyProcessing)))
      \<le> counted_errors (worker tbl ts k) - counted_errors k \<and>
    (\<forall>i < length ts. let url = snd (splitMember (rev (dlists (fstate k) keyReady) ! i)) in
       served (ts ! i) \<and> Contains url (VideoPattern (conf k)) \<longrightarrow> docs (mstate (worker tbl ts k)) url \<noteq> None)"
proof -
  let ?c = "frontierConfig (conf k)" and ?cl = "Some (NewURLClassifier (conf k) seeds)"
  have k: "frontier k = NewFrontier ev ?c ?cl" "mongo k = D" using assms(3) by (simp_all add: assembled_def)
  have server: "redis_server ev" by (rule redis_reliable.axioms(1) [OF assms(1)])
  have fenced: "fenced (fstate k)" by (rule fenced_inv [OF crawls_inv [OF server assms(2,4)]])
  let ?pool = "[worker_prog tbl ts]"
  have "pool_steps beside (?pool, k) ([Halt], worker tbl ts k)"
    using alone_steps [of beside "worker_prog tbl ts" k] by (simp only: worker_alone)
  from left_behind [OF k(1) fenced _ this]
  have left: "int (card (set (dlists (fstate (worker tbl ts k)) keyProcessing) - set (dlists (fstate k) keyProcessing)))
      \<le> counted_errors (worker tbl ts k) - counted_errors k"
    by (simp add: tending_worker [OF server])
  note drained = worker_drains [OF assms(1,2) k up assms(6-8), of tbl]
  from left drained assms(6) show ?thesis unfolding undisturbed_def Let_def by auto
qed

text \<open>The job of the sample database, and a turn that fetches its page.\<close>

definition quiet_turn :: turn where
  "quiet_turn = \<lparr>ctx_done = False, wait_err = False, fetched = Response 200 (Some
     \<lparr>title_text = ''T - VidLii'', hrefs = [], date_text = '''', duration_attr = ''''\<rparr>)\<rparr>"

theorem backlog_drains_witness:
  "dlists sample_db keyReady \<noteq> [] \<and>
   (let k' = worker sample_tables [quiet_turn] (sample_crawler sample_db) in
      dlists (fstate k') keyReady = [] \<and> map_of (mstate k') sample_url \<noteq> None)"
proof -
  let ?k = "sample_crawler sample_db"
  have up: "\<And>v m. fst (Upsert sample_driver v m) = None" by (simp add: Upsert_def ref_driver_def)
  have go: "\<not> stopped ?k" "\<forall>t \<in> set [quiet_turn]. settles t"
    by (simp_all add: sample_crawler_def main_crawler_def New_crawler_def sample_world_def Let_def quiet_turn_def settles_def)
  have one: "length [quiet_turn] = length (dlists (fstate ?k) keyReady)"
    by (simp add: sample_state sample_db_value(2))
  have url: "snd (splitMember (rev (dlists (fstate ?k) keyReady) ! 0)) = sample_url"
    by (simp add: sample_state sample_db_value(2))
  have video: "served quiet_turn" "Contains sample_url watch"
    by (simp_all add: quiet_turn_def served_def sample_url_def Contains_base) (simp_all add: Contains_def Index_here HasPrefix_def)
  have "redis_reliable ref_eval" "mongo_store sample_driver map_of" by unfold_locales
  from backlog_drains [OF this sample_assembled _ up go one, unfolded sample_state(1-3), OF sample_run, of sample_tables]
    video url one sample_db_value(2) show ?thesis
    by (simp add: sample_state Let_def del: worker.simps)
qed

end
