(* ===== verification/Frontier_Lifecycle.thy ===== *)
theory Frontier_Lifecycle
  imports Frontier_Samples
begin

text \<open>
  The life of a job as an abstract machine of six stages, and the frontier as an implementation of it:
  whatever calls are made and wherever their scripts stop, a job only ever moves on.
\<close>

subsection \<open>The abstract machine\<close>

datatype stage = Unborn | Waiting | Running | Stranded | Postponed | Finished

text \<open>One rule for each way on.\<close>

inductive advance :: "stage \<Rightarrow> stage \<Rightarrow> bool" where
  pushed: "advance Unborn Waiting"        \<comment> \<open>an admission, a requeueing, a reconciler\<close>
| delayed: "advance Unborn Postponed"     \<comment> \<open>a failure that is retried\<close>
| leased: "advance Waiting Running"
| half_leased: "advance Waiting Stranded" \<comment> \<open>a Lease that was cut off\<close>
| half_resolved: "advance Running Stranded" \<comment> \<open>a resolution that was cut off\<close>
| resolved: "advance Running Finished"
| swept: "advance Stranded Finished"
| promoted: "advance Postponed Finished"

instantiation stage :: order
begin

definition less_eq_stage :: "stage \<Rightarrow> stage \<Rightarrow> bool" where
  "less_eq_stage a b \<longleftrightarrow> a = b \<or> a = Unborn \<or> b = Finished \<or> a = Waiting \<and> b \<in> {Running, Stranded} \<or> a = Running \<and> b = Stranded"

definition less_stage :: "stage \<Rightarrow> stage \<Rightarrow> bool" where
  "less_stage a b \<longleftrightarrow> a \<le> b \<and> a \<noteq> b"

instance
  by standard (auto simp: less_stage_def less_eq_stage_def)

end

lemma advance_le: "advance\<^sup>*\<^sup>* a b \<Longrightarrow> a \<le> b"
proof (induction rule: rtranclp_induct)
  case (step b c)
  from step(2) have "b \<le> c" by (auto simp: less_eq_stage_def elim: advance.cases)
  with step.IH show ?case by (rule order_trans)
qed simp

text \<open>The order of the stages is what the machine can do.\<close>

lemma stage_order: "a \<le> b \<longleftrightarrow> advance\<^sup>*\<^sup>* a b"
proof
  have path: "advance\<^sup>*\<^sup>* Waiting Finished" "advance\<^sup>*\<^sup>* Unborn Waiting" "advance\<^sup>*\<^sup>* Waiting Running" "advance\<^sup>*\<^sup>* Waiting Stranded"
    by (meson advance.intros rtranclp.intros)+
  assume "a \<le> b"
  with path show "advance\<^sup>*\<^sup>* a b"
    by (cases a; cases b; simp add: less_eq_stage_def; meson advance.intros rtranclp.intros rtranclp_trans)
qed (rule advance_le)

subsection \<open>The stage of a job in the database\<close>

definition stage :: "int \<Rightarrow> string \<Rightarrow> db \<Rightarrow> stage" where
  "stage n u s = (let m = job_member n u in
     if m \<in> set (dlists s keyReady) then Waiting
     else if m \<in> set (dlists s keyProcessing) then (if zscore (dzsets s keyLease) m \<noteq> None then Running else Stranded)
     else if zscore (dzsets s keyDelayed) m \<noteq> None then Postponed
     else if 1 \<le> n \<and> n \<le> dints s keyJobSeq then Finished else Unborn)"

lemma minted_job [simp]: "minted q (job_member n u) \<longleftrightarrow> 1 \<le> n \<and> n \<le> q"
  by (auto simp: minted_def)

text \<open>Each stage is the places that are still open to the job.\<close>

lemma stage_within:
  assumes "frontier_inv vid A s"
  shows "stage n u s = Waiting \<Longrightarrow> within True True True False (job_member n u) s"
    and "stage n u s = Running \<Longrightarrow> within False True True False (job_member n u) s"
    and "stage n u s = Stranded \<Longrightarrow> within False True False False (job_member n u) s"
    and "stage n u s = Postponed \<Longrightarrow> within False False False True (job_member n u) s"
    and "stage n u s = Finished \<Longrightarrow> within False False False False (job_member n u) s"
proof -
  let ?m = "job_member n u"
  have "fence (dints s keyJobSeq) (dlists s keyReady) (dlists s keyProcessing) (dzsets s keyDelayed) (dzsets s keyLease)"
    using assms by (simp add: frontier_inv_def)
  then have places: "?m \<in> set (dlists s keyReady) \<union> set (dlists s keyProcessing) \<union> zmembers (dzsets s keyDelayed) \<Longrightarrow>
      minted (dints s keyJobSeq) ?m"
    "?m \<in> set (dlists s keyReady) \<Longrightarrow> ?m \<notin> zmembers (dzsets s keyDelayed)"
    "?m \<in> set (dlists s keyProcessing) \<Longrightarrow> ?m \<notin> zmembers (dzsets s keyDelayed)"
    "?m \<in> zmembers (dzsets s keyLease) \<Longrightarrow> ?m \<in> set (dlists s keyProcessing)"
    unfolding fence_def by blast+
  then show "stage n u s = Waiting \<Longrightarrow> within True True True False ?m s"
    "stage n u s = Running \<Longrightarrow> within False True True False ?m s"
    "stage n u s = Stranded \<Longrightarrow> within False True False False ?m s"
    "stage n u s = Postponed \<Longrightarrow> within False False False True ?m s"
    "stage n u s = Finished \<Longrightarrow> within False False False False ?m s"
    by (auto simp: stage_def within_def Let_def simp del: minted_job split: if_splits) (simp_all)
qed

lemma within_stage:
  "within ra pa la da (job_member n u) s \<Longrightarrow> stage n u s \<noteq> Unborn \<and> (stage n u s = Waiting \<longrightarrow> ra) \<and>
   (stage n u s = Running \<longrightarrow> ra \<or> la) \<and> (stage n u s = Stranded \<longrightarrow> ra \<or> pa) \<and> (stage n u s = Postponed \<longrightarrow> da)"
  by (auto simp: stage_def within_def Let_def)

text \<open>
  C7: the frontier implements the life of a job. From any reachable state, in whatever way workers and
  reconcilers call the frontier and wherever the server stops their scripts, a numbered job goes
  through the stages of the abstract machine in their order: it waits at most once, runs at most once,
  is never leased or postponed again once it has run, and once finished stays finished.
\<close>

theorem job_life_cycle:
  assumes "redis_server ev" and "runs ev c cl ({}, empty_db) (A, s)" and "runs ev c cl (A, s) (B, t)"
  shows "advance\<^sup>*\<^sup>* (stage n u s) (stage n u t)"
proof -
  have kept: "within ra pa la da (job_member n u) t" if "within ra pa la da (job_member n u) s" for ra pa la da
    using redis_server.kept_steps [OF assms(1,3) kept_within] that by simp
  note here = stage_within [OF runs_inv [OF assms(1,2)], of n u, THEN kept, THEN within_stage]
  show ?thesis
    unfolding stage_order [symmetric] less_eq_stage_def
    using here by (cases "stage n u s"; cases "stage n u t"; simp)
qed

theorem job_life_cycle_witness:
  "stage 1 ''l'' empty_db = Unborn \<and> stage 1 ''l'' sample_2 = Waiting \<and> stage 1 ''l'' sample_4 = Running \<and>
   advance\<^sup>*\<^sup>* (stage 1 ''l'' sample_2) (stage 1 ''l'' sample_4)"
proof -
  have "stage 1 ''l'' empty_db = Unborn" "stage 1 ''l'' sample_2 = Waiting" "stage 1 ''l'' sample_4 = Running"
    by code_simp+
  with job_life_cycle [OF sample_server(1) sample_reached(1) steps_trans [OF sample_steps(4) sample_steps(3)]]
  show ?thesis by metis
qed

end
