(* ===== verification/Login_Tool.thy ===== *)
theory Login_Tool
  imports Auth
begin

text \<open>
  \<^verbatim>\<open>test/multi-login.go\<close>, the stand-alone program that tries whether one session carries several
  requests: one login, then five concurrent fetches of the same page by the same client. \<^verbatim>\<open>net/http\<close> is an
  argument: the response of the login form, a status or a nil pointer, with its error, and the outcome of each
  fetch. The result is what is printed, in the order in which the goroutines come to print.
\<close>

datatype 'e line =
    LoginFailed "'e option" int      \<comment> \<open>"login failed: %v %v"\<close>
  | LoggedIn
  | FetchError nat 'e
  | FetchStatus nat int

text \<open>None: the program panics on a nil pointer.\<close>

fun login_failed :: "int option \<Rightarrow> 'e option \<Rightarrow> bool option" where
  "login_failed resp (Some e) = Some True"
| "login_failed None None = None"
| "login_failed (Some status) None = Some (status \<noteq> 200)"

definition fetch_line :: "(nat \<Rightarrow> 'e + int) \<Rightarrow> nat \<Rightarrow> 'e line" where
  "fetch_line get i = (case get i of Inl e \<Rightarrow> FetchError i e | Inr status \<Rightarrow> FetchStatus i status)"

definition multi_login :: "int option \<times> 'e option \<Rightarrow> (nat \<Rightarrow> 'e + int) \<Rightarrow> nat list \<Rightarrow> 'e line list option" where
  "multi_login login get order =
     (case login of (resp, err) \<Rightarrow>
        case login_failed resp err of
          None \<Rightarrow> None
        | Some True \<Rightarrow> map_option (\<lambda>status. [LoginFailed err status]) resp
        | Some False \<Rightarrow> Some (LoggedIn # map (fetch_line get) order))"

text \<open>
  The failure that \<^verbatim>\<open>PostForm\<close> reports, with no response, is never printed: the message reads the status of
  a nil response. A refused login is reported, and after an accepted one each of the five fetches prints one
  line.
\<close>

lemma failed_login_panics: "multi_login (None, Some e) get order = None"
  by (simp add: multi_login_def)

lemma refused_login: "status \<noteq> 200 \<Longrightarrow> multi_login (Some status, None) get order = Some [LoginFailed None status]"
  by (simp add: multi_login_def)

lemma accepted_login:
  assumes "set order = {..<5}" and "distinct order"
  shows "\<exists>ls. multi_login (Some 200, None) get order = Some (LoggedIn # ls) \<and> length ls = 5 \<and>
    set ls = fetch_line get ` {..<5}"
  using assms distinct_card [OF assms(2)] by (auto simp: multi_login_def)

end
