(* ===== verification/Spec2Isabelle.thy ===== *)
theory Spec2Isabelle
  imports Frontier_Call_Samples Worker_Errors Worker_Turns Worker_Counts Worker_Stats
    Worker_Backlog Frontier_Lifecycle Login_Tool
begin

text \<open>
  A model of the gfap crawler (\<^verbatim>\<open>cmd/crawler\<close> and \<^verbatim>\<open>internal/\<close>), which crawls the pages of a video site
  and stores the videos that meet its target conditions.

  Parts of the program, and how they interact. Workers lease jobs from the frontier, fetch and classify
  pages, store videos in MongoDB, admit the links they find, and resolve their job. The frontier is twelve
  Lua scripts over one Redis database (lists ready and processing, sorted sets lease, delayed and
  listing:next, hashes dead, attempts, strikes and barren, a counter, a Bloom filter) with Go methods that
  run them. Reconcilers move work back into ready on their periods: due listings, delayed jobs, expired
  leases, orphans. At startup the filter is rebuilt from the collection and the schedule is seeded.

  Theories, in the order the program has its parts:

  \<^item> Prelude, Go_Strings, Go_Time: decimal notation, Go's integers and durations, and the functions of
    \<^verbatim>\<open>strings\<close>, \<^verbatim>\<open>strconv\<close> and \<^verbatim>\<open>time\<close> that the code calls, on byte strings; times are nanoseconds since 1970,
    and calendar dates are ordered as a \<^verbatim>\<open>linorder\<close>.
  \<^item> Redis_Store: the database as a record, each Redis command as a function or (BF.ADD, which may report
    a false positive) a relation, scripts as a tree of commands, and the server as a parameter: the
    locale \<open>redis_server\<close> lets it stop a script after any command or lose the reply, \<open>redis_reliable\<close>
    adds that a script without failing commands is carried out.
  \<^item> Frontier_Scripts, Frontier (\<^verbatim>\<open>storage/frontier.go\<close>): the scripts, call by call; the types and methods of
    \<^verbatim>\<open>redisFrontier\<close>; the \<^verbatim>\<open>Frontier\<close> interface as a record of operations over a state its callers do not see.
  \<^item> Frontier_Invariant, Frontier_Preservation: what each script keeps at every point where it may stop.
  \<^item> Frontier_Contract, Frontier_Steps: the contract of the interface as the locale \<open>frontier_contract\<close>,
    provided by the Redis frontier on every \<open>redis_server\<close>; interleavings of calls as a step relation.
  \<^item> Frontier_Leases, Frontier_Safety, Frontier_Samples: safety over all interleavings, with witnesses.
  \<^item> Frontier_Lifecycle: the life of a job as an abstract machine of stages, which the frontier implements.
    The stages are an instance of \<open>order\<close>, whose order is what the machine can do.
  \<^item> Frontier_Traffic: which jobs each script brings into processing or takes out of it, wherever it stops.
  \<^item> Frontier_Functional, Frontier_Completion, Frontier_Admission, Frontier_Reconcile,
    Frontier_Call_Samples: what each call does on a reliable server, branch by branch.
  \<^item> Video (\<^verbatim>\<open>model/video.go\<close>): UTF-8 titles, dates in three layouts, the target conditions.
  \<^item> Config (\<^verbatim>\<open>config/config.go\<close>, frontierConfig of \<^verbatim>\<open>main.go\<close>), Metrics (\<^verbatim>\<open>metrics/metrics.go\<close>), Bloom
    (\<^verbatim>\<open>storage/redis.go\<close>), Mongo (\<^verbatim>\<open>storage/mongo.go\<close>, over a record of the driver's calls and the locale
    \<open>mongo_store\<close>), Auth (\<^verbatim>\<open>auth/login.go\<close>), Login_Tool (\<^verbatim>\<open>test/multi-login.go\<close>, a program that tries three logins).
  \<^item> World: what the goroutines share. Crawler, Crawler_Urls (\<^verbatim>\<open>crawler/crawler.go\<close>): the crawler's state,
    canonical URLs, classes, admission, seeding, resuming.
  \<^item> Crawl: interleavings of all calls of frontier, store and filter as the step relation \<open>crawl_step\<close>, and
    the locale \<open>crawl_contract\<close> that extends the frontier's contract and the store's.
  \<^item> Worker, Worker_Runs, Worker_Errors, Worker_Turns (\<^verbatim>\<open>crawler/worker.go\<close>): pages to outcomes, outcomes to
    calls, the loop of a worker; every worker's calls are a run of the crawl; which errors end it; every
    turn ends its job or counts a failure.
  \<^item> Scheduler, Scheduler_Runs (\<^verbatim>\<open>scheduler/scheduler.go\<close>): the reconcilers' ticks, the drain of due
    listings, the Bloom monitor.
  \<^item> Startup (\<^verbatim>\<open>cmd/crawler/main.go\<close>): the seed list, the rebuilding of the filter, the order of startup.
  \<^item> Goroutines: goroutines as programs of atomic actions on a shared state, a pool of them as a step
    relation, and the locale \<open>protocol\<close>: what every action keeps, whoever runs it.
  \<^item> Worker_Programs, Scheduler_Programs: each worker, each reconciler and the waiting of \<^verbatim>\<open>RunTest\<close> as such a
    program, cut at the calls its Go body makes; run alone, each is the function that models its loop.
  \<^item> Crawl_Pools, Crawl_Interleavings: the pools that \<^verbatim>\<open>main.go\<close> and \<^verbatim>\<open>RunTest\<close> start, interleaved in any way
    with other processes that call the frontier, keep the contract of the crawl.
  \<^item> Worker_Counts, Worker_Stats, Worker_Shutdown: what the goroutines of one process do with its counters,
    its statistics and its jobs under every interleaving: how far a limited run passes its limit, what a
    worker may still count after a stop, what is left in processing when all have ended.
  \<^item> Worker_Backlog: progress. A worker on pages without new links, on a server and a store that do what
    they are asked, gets through the jobs that are ready, oldest first.
  \<^item> Crawl_Safety: the parts together.

  Interfaces. A client's lemmas are proved in the locale of the interface it uses: \<open>redis_server\<close> and
  \<open>redis_reliable\<close> for scripts, \<open>frontier_contract\<close> for callers of the frontier, \<open>mongo_store\<close> for callers of
  the driver, \<open>crawl_contract\<close> for runs, \<open>protocol\<close> for goroutines that share a state. \<open>redis_frontier\<close> and
  \<open>redis_crawl\<close> give the contracts for the code's own frontier by sublocale, and \<open>crawl_contract\<close> gives a
  \<open>protocol\<close>; all are interpreted on a reference server, and \<open>redis_frontier\<close> also on the one that loses its
  connection after \<open>n\<close> commands. \<open>protocol\<close> is interpreted for the counters of a run, of a run with a limit
  and of a run that has been stopped, and for the jobs it holds.

  Concurrency. Redis runs one script at a time, MongoDB one operation on a document, and the counters are
  Go's atomics, so an action of a goroutine is one such call together with the reads of its own job that
  follow. The bodies of the goroutines are programs of these actions, and a run of the pool takes the next
  action of any goroutine or lets the environment act: a stop request, another process on the same
  database. A crash ends a run anywhere, and the next process starts on the database it left. A worker's guards mention only its own job, the classifier, the clock and
  documents that are never removed, so that they hold whatever the others do in between.

  Bounds. The loop of the listing scheduler's tick is a partial function, and its termination a theorem;
  all other recursions are total. Loops over the environment (turns of a worker, ticks of a reconciler,
  polls of a test run) recurse over the finite list of what the environment does; in a program the drain
  is unfolded to a number of pages that each tick is given, any number, since every prefix of a run is one.
  Clock readings are assumed to lie before the PENDING mark, the year 9999, less the longest delay
  (\<open>time_ok\<close>).

  Not modelled: the rounding of float64 (ratios are rationals, the implied false-positive rate is real);
  job numbers beyond 10 to the 14th, which Lua would print with an exponent; timeouts, sleeps and log
  lines; a Redis that restarts from an older snapshot of its data; the HTTP server, Prometheus, godotenv,
  goquery, the cookie jar and the drivers, which are library code and appear as parameters where the
  program uses their results.
\<close>

end
